theory Spec2Isabelle
  imports Complex_Main "HOL-Library.AList" "HOL-Library.Multiset" "HOL-Library.Sublist"
begin

section \<open>Values, namespaces and errors\<close>

text \<open>
  The parsed command line (\<^verbatim>\<open>params.__dict__\<close>) and the unpickled snapshot
  (\<^verbatim>\<open>pk.__dict__\<close>) are Python dictionaries from option names to values. A dictionary is
  an association list in insertion order: \<^verbatim>\<open>d[k]\<close> is \<open>map_of d k\<close>, \<^verbatim>\<open>d[k] = v\<close> is
  \<open>AList.update k v d\<close> and \<^verbatim>\<open>del d[k]\<close> is \<open>AList.delete k d\<close>.
\<close>

datatype pyval = PNone | PBool bool | PInt int | PFloat real | PStr string

type_synonym namespace = "(string \<times> pyval) list"

datatype error =
    AssertionError
  | KeyError string
  | AttributeError string
  | TypeError
  | UnpicklingError
  | IndexError
  | OtherError string

text \<open>Truth value of an object, as \<^verbatim>\<open>if\<close> and \<^verbatim>\<open>and\<close> take it.\<close>

fun truthy :: "pyval \<Rightarrow> bool" where
  "truthy PNone = False"
| "truthy (PBool b) = b"
| "truthy (PInt i) = (i \<noteq> 0)"
| "truthy (PFloat x) = (x \<noteq> 0)"
| "truthy (PStr s) = (s \<noteq> [])"

text \<open>\<^verbatim>\<open>params.name\<close>: reading an attribute that is not there raises AttributeError.\<close>

definition getattr :: "namespace \<Rightarrow> string \<Rightarrow> error + pyval" where
  "getattr ns name = (case map_of ns name of None \<Rightarrow> Inl (AttributeError name) | Some v \<Rightarrow> Inr v)"

text \<open>\<^verbatim>\<open>params.name = v\<close>.\<close>

definition setattr :: "namespace \<Rightarrow> string \<Rightarrow> pyval \<Rightarrow> namespace" where
  "setattr ns name v = AList.update name v ns"

text \<open>\<^verbatim>\<open>del d[key]\<close>: deleting a key that is not there raises KeyError.\<close>

definition del_key :: "string \<Rightarrow> namespace \<Rightarrow> error + namespace" where
  "del_key key d = (if map_of d key = None then Inl (KeyError key) else Inr (AList.delete key d))"

text \<open>\<^verbatim>\<open>a + b\<close> where \<open>b\<close> is a string literal or a string: only two strings concatenate.\<close>

fun str_add :: "pyval \<Rightarrow> string \<Rightarrow> error + string" where
  "str_add (PStr a) b = Inr (a @ b)"
| "str_add _ b = Inl TypeError"

fun add_str :: "string \<Rightarrow> pyval \<Rightarrow> error + string" where
  "add_str a (PStr b) = Inr (a @ b)"
| "add_str a _ = Inl TypeError"

definition bind :: "error + 'a \<Rightarrow> ('a \<Rightarrow> error + 'b) \<Rightarrow> error + 'b" where
  "bind r f = (case r of Inl e \<Rightarrow> Inl e | Inr v \<Rightarrow> f v)"

subsection \<open>The file system\<close>

text \<open>
  What reconciliation sees of the disk: which paths are regular files
  (\<^verbatim>\<open>os.path.isfile\<close>) and what \<^verbatim>\<open>pickle.load\<close> returns for them.
\<close>

datatype disk_file = PickleFile namespace | DataFile

type_synonym filesystem = "string \<Rightarrow> disk_file option"

definition isfile :: "filesystem \<Rightarrow> string \<Rightarrow> bool" where
  "isfile fs path = (fs path \<noteq> None)"

definition pickle_load :: "filesystem \<Rightarrow> string \<Rightarrow> error + namespace" where
  "pickle_load fs path =
     (case fs path of Some (PickleFile d) \<Rightarrow> Inr d | _ \<Rightarrow> Inl UnpicklingError)"

section \<open>Parameter reconciliation (the \<^verbatim>\<open>__main__\<close> block, lines 206 to 241)\<close>

text \<open>Lines 213 to 215: the three unconditional deletions, in order.\<close>

definition strip_identity :: "namespace \<Rightarrow> error + namespace" where
  "strip_identity pickled_args =
     bind (del_key ''exp_id'' pickled_args) (\<lambda>d1.
     bind (del_key ''dump_path'' d1) (\<lambda>d2.
     del_key ''exp_name'' d2))"

text \<open>Lines 216 to 230: the keys deleted when present.\<close>

definition excluded_keys :: "string list" where
  "excluded_keys =
     [''eval_data'', ''batch_size_eval'', ''local_rank'', ''beam_eval'', ''beam_size'',
      ''eval_verbose'', ''eval_verbose_print'', ''master_port'', ''max_len'',
      ''max_output_len'', ''lyap_SOS_checker'']"

definition strip_excluded :: "namespace \<Rightarrow> namespace" where
  "strip_excluded pickled_args =
     fold (\<lambda>key d. if map_of d key \<noteq> None then AList.delete key d else d)
       excluded_keys pickled_args"

text \<open>Lines 232 to 234: every key of the current parameters found in the snapshot is overwritten.\<close>

definition overlay :: "namespace \<Rightarrow> namespace \<Rightarrow> namespace" where
  "overlay pickled_args params =
     fold (\<lambda>p ps. case map_of pickled_args p of None \<Rightarrow> ps | Some v \<Rightarrow> AList.update p v ps)
       (map fst params) params"

text \<open>
  Lines 208 to 234, entered with \<open>exp_str\<close> the value of \<^verbatim>\<open>params.eval_from_exp\<close>:
  load the snapshot, strip it, merge it.
\<close>

definition merge_snapshot :: "filesystem \<Rightarrow> pyval \<Rightarrow> namespace \<Rightarrow> error + namespace" where
  "merge_snapshot fs exp_str params =
     bind (str_add exp_str ''/params.pkl'') (\<lambda>pickle_file.
     if \<not> isfile fs pickle_file then Inl AssertionError
     else
       bind (pickle_load fs pickle_file) (\<lambda>pk.
       bind (strip_identity pk) (\<lambda>d.
       Inr (overlay (strip_excluded d) params))))"

text \<open>
  Lines 236 to 238: evaluation-only mode is forced, the path of the model to reload is
  computed and must be a file.
\<close>

definition force_reload_model :: "filesystem \<Rightarrow> pyval \<Rightarrow> namespace \<Rightarrow> error + namespace" where
  "force_reload_model fs exp_str params =
     (let p1 = setattr params ''eval_only'' (PBool True) in
      bind (str_add exp_str ''/best-'') (\<lambda>prefix.
      bind (getattr p1 ''validation_metrics'') (\<lambda>vm.
      bind (add_str prefix vm) (\<lambda>stem.
      let reload_model = stem @ ''.pth'';
          p2 = setattr p1 ''reload_model'' (PStr reload_model) in
      if \<not> isfile fs reload_model then Inl AssertionError else Inr p2))))"

text \<open>Lines 239 to 241: what an evaluation-data path changes.\<close>

definition use_eval_data :: "namespace \<Rightarrow> error + namespace" where
  "use_eval_data params =
     bind (getattr params ''eval_data'') (\<lambda>eval_data.
     if eval_data \<noteq> PStr '''' then
       (let p3 = setattr params ''eval_size'' PNone in
        bind (getattr p3 ''tasks'') (\<lambda>tasks.
        bind (str_add tasks '','') (\<lambda>s1.
        bind (add_str s1 eval_data) (\<lambda>s2.
        bind (add_str (s2 @ '','') eval_data) (\<lambda>s3.
        Inr (setattr p3 ''reload_data'' (PStr s3)))))))
     else Inr params)"

text \<open>Lines 236 to 241: what is forced after the merge.\<close>

definition after_merge :: "filesystem \<Rightarrow> pyval \<Rightarrow> namespace \<Rightarrow> error + namespace" where
  "after_merge fs exp_str params = bind (force_reload_model fs exp_str params) use_eval_data"

text \<open>Line 206: the guard \<^verbatim>\<open>params.eval_only and params.eval_from_exp != ""\<close>.\<close>

definition from_exp_requested :: "namespace \<Rightarrow> error + bool" where
  "from_exp_requested params =
     bind (getattr params ''eval_only'') (\<lambda>eo.
     if \<not> truthy eo then Inr False
     else bind (getattr params ''eval_from_exp'') (\<lambda>efe. Inr (efe \<noteq> PStr '''')))"

definition reconcile :: "filesystem \<Rightarrow> namespace \<Rightarrow> error + namespace" where
  "reconcile fs params =
     bind (from_exp_requested params) (\<lambda>active.
     if active then
       bind (getattr params ''eval_from_exp'') (\<lambda>exp_str.
       bind (merge_snapshot fs exp_str params) (\<lambda>merged.
       after_merge fs exp_str merged))
     else Inr params)"

section \<open>The orchestrator (\<^verbatim>\<open>main\<close>, lines 135 to 197)\<close>

subsection \<open>Configuration, trainer and observable calls\<close>

type_synonym task = string

text \<open>
  A score as the two logging lines see it. \<^verbatim>\<open>"%.6f" % v\<close> takes a Python number or
  any object that converts to one and raises TypeError on the rest; \<^verbatim>\<open>json.dumps\<close>
  takes a Python number and raises TypeError on an object it has no encoder for. Three
  kinds of value tell these behaviours apart: a Python number, which both lines take; a
  NumPy \<^verbatim>\<open>float32\<close>, which the format takes and the encoder does not; and a value that
  is no number, such as \<^verbatim>\<open>None\<close>, which neither takes.
\<close>

datatype score_value = PyFloat real | NumpyFloat32 real | NotNumber

fun formats :: "score_value \<Rightarrow> bool" where
  "formats (PyFloat x) = True"
| "formats (NumpyFloat32 x) = True"
| "formats NotNumber = False"

fun serialises :: "score_value \<Rightarrow> bool" where
  "serialises (PyFloat x) = True"
| "serialises (NumpyFloat32 x) = False"
| "serialises NotNumber = False"

type_synonym scores = "(string \<times> score_value) list"

text \<open>The fields of \<^verbatim>\<open>params\<close> that \<^verbatim>\<open>main\<close> reads.\<close>

record params =
  cpu :: bool
  multi_gpu :: bool
  is_master :: bool
  eval_only :: bool
  max_epoch :: int
  tasks :: "task list"
  export_data :: bool

text \<open>
  The trainer object: the three attributes \<^verbatim>\<open>main\<close> reads or writes, and everything
  else it holds (modules, optimizers, data loaders) as one opaque component.
\<close>

record 't trainer =
  n_equations :: int
  epoch_size :: int
  epoch :: int
  internals :: 't

datatype logline =
    StartingEpoch int
  | EndOfEpoch int
  | ScoresLine scores
  | MetricLine string score_value
  | JsonLine scores

text \<open>Every call \<^verbatim>\<open>main\<close> makes into a collaborator, in the order it makes them.\<close>

datatype event =
    InitDistributedMode
  | InitializeExp
  | InitSignalHandler
  | SetCUDA bool
  | BuildEnv
  | BuildModules
  | NewTrainer
  | NewEvaluator
  | RunAllEvals
  | LogInfo logline
  | Permutation "nat list"
  | ExportData task
  | EncDecStep task
  | Iter
  | SaveBestModel scores
  | SavePeriodic
  | EndEpoch scores

text \<open>A call stops the program by raising or by \<^verbatim>\<open>exit()\<close>; otherwise it returns.\<close>

datatype stop = Raised error | Exit

text \<open>
  The collaborators that are not part of \<^verbatim>\<open>train.py\<close>, as parameters. Each may stop
  the program instead of returning.
\<close>

record ('e, 'm, 't, 'g) collaborators =
  init_distributed_mode :: "params \<Rightarrow> stop + params"
  initialize_exp :: "params \<Rightarrow> stop + params"
  init_signal_handler :: "stop + unit"
  cuda_is_available :: bool
  build_env :: "params \<Rightarrow> stop + ('e \<times> params)"
  build_modules :: "'e \<Rightarrow> params \<Rightarrow> stop + 'm"
  new_trainer :: "'m \<Rightarrow> 'e \<Rightarrow> params \<Rightarrow> stop + 't trainer"
  run_all_evals :: "'t trainer \<Rightarrow> stop + (scores \<times> 't trainer)"
  trainer_export_data :: "task \<Rightarrow> 't trainer \<Rightarrow> stop + 't trainer"
  trainer_enc_dec_step :: "task \<Rightarrow> 't trainer \<Rightarrow> stop + 't trainer"
  trainer_iter :: "'t trainer \<Rightarrow> stop + 't trainer"
  trainer_save_best_model :: "scores \<Rightarrow> 't trainer \<Rightarrow> stop + 't trainer"
  trainer_save_periodic :: "'t trainer \<Rightarrow> stop + 't trainer"
  trainer_end_epoch :: "scores \<Rightarrow> 't trainer \<Rightarrow> stop + 't trainer"
  next_draw :: "'g \<Rightarrow> nat \<times> 'g"

text \<open>
  The running program: the trainer, the state of NumPy's global generator, and the calls
  made so far. A run that stops keeps the calls made up to that point.
\<close>

record ('t, 'g) world =
  the_trainer :: "'t trainer"
  rng :: 'g
  trace :: "event list"

type_synonym ('t, 'g) outcome = "(stop \<times> event list) + ('t, 'g) world"

definition record_call :: "event \<Rightarrow> ('t, 'g) world \<Rightarrow> ('t, 'g) world" where
  "record_call ev w = w\<lparr>trace := trace w @ [ev]\<rparr>"

definition call_trainer ::
  "event \<Rightarrow> ('t trainer \<Rightarrow> stop + 't trainer) \<Rightarrow> ('t, 'g) world \<Rightarrow> ('t, 'g) outcome" where
  "call_trainer ev f w =
     (case f (the_trainer w) of
        Inl s \<Rightarrow> Inl (s, trace w @ [ev])
      | Inr t \<Rightarrow> Inr (w\<lparr>the_trainer := t, trace := trace w @ [ev]\<rparr>))"

subsection \<open>\<^verbatim>\<open>np.random.permutation\<close>\<close>

text \<open>
  \<^verbatim>\<open>np.random.permutation(n)\<close> shuffles \<^verbatim>\<open>arange(n)\<close> in place: for \<open>i\<close> from
  \<open>n - 1\<close> down to \<open>1\<close> it draws \<open>j\<close> in \<open>0..i\<close> from the generator and swaps the
  entries \<open>i\<close> and \<open>j\<close>.
\<close>

fun shuffle :: "('g \<Rightarrow> nat \<times> 'g) \<Rightarrow> nat \<Rightarrow> nat list \<Rightarrow> 'g \<Rightarrow> nat list \<times> 'g" where
  "shuffle draw 0 xs g = (xs, g)"
| "shuffle draw (Suc i) xs g =
     (case draw g of (r, g') \<Rightarrow>
        (let j = r mod (Suc (Suc i)) in
         shuffle draw i (xs[Suc i := xs ! j, j := xs ! Suc i]) g'))"

definition permutation :: "('g \<Rightarrow> nat \<times> 'g) \<Rightarrow> nat \<Rightarrow> 'g \<Rightarrow> nat list \<times> 'g" where
  "permutation draw n g = shuffle draw (n - 1) [0..<n] g"

subsection \<open>The epoch loop (lines 165 to 197)\<close>

text \<open>Lines 175 to 180: the work unit of one task, then the bookkeeping call.\<close>

definition task_step ::
  "('e, 'm, 't, 'g) collaborators \<Rightarrow> params \<Rightarrow> nat \<Rightarrow> ('t, 'g) world \<Rightarrow> ('t, 'g) outcome" where
  "task_step X p task_id w =
     (if \<not> task_id < length (tasks p) then Inl (Raised IndexError, trace w)
      else
        (let task = tasks p ! task_id in
         case (if export_data p
               then call_trainer (ExportData task) (trainer_export_data X task) w
               else call_trainer (EncDecStep task) (trainer_enc_dec_step X task) w) of
           Inl s \<Rightarrow> Inl s
         | Inr w1 \<Rightarrow> call_trainer Iter (trainer_iter X) w1))"

text \<open>Line 174: the \<^verbatim>\<open>for\<close> loop over the drawn task ids.\<close>

fun task_steps ::
  "('e, 'm, 't, 'g) collaborators \<Rightarrow> params \<Rightarrow> nat list \<Rightarrow> ('t, 'g) world \<Rightarrow> ('t, 'g) outcome" where
  "task_steps X p [] w = Inr w"
| "task_steps X p (task_id # ids) w =
     (case task_step X p task_id w of
        Inl s \<Rightarrow> Inl s
      | Inr w' \<Rightarrow> task_steps X p ids w')"

text \<open>Lines 174 to 180: one pass of the body of the \<^verbatim>\<open>while\<close> loop.\<close>

definition inner_step ::
  "('e, 'm, 't, 'g) collaborators \<Rightarrow> params \<Rightarrow> ('t, 'g) world \<Rightarrow> ('t, 'g) outcome" where
  "inner_step X p w =
     (case permutation (next_draw X) (length (tasks p)) (rng w) of (ids, g') \<Rightarrow>
        task_steps X p ids (record_call (Permutation ids) (w\<lparr>rng := g'\<rparr>)))"

text \<open>
  Line 171: \<^verbatim>\<open>while trainer.n_equations < trainer.epoch_size\<close>. The loop need not end:
  \<open>None\<close> is the run that never leaves it.
\<close>

partial_function (option) while_steps ::
  "('e, 'm, 't, 'g) collaborators \<Rightarrow> params \<Rightarrow> ('t, 'g) world \<Rightarrow> ('t, 'g) outcome option" where
  "while_steps X p w =
     (if n_equations (the_trainer w) < epoch_size (the_trainer w) then
        (case inner_step X p w of
           Inl s \<Rightarrow> Some (Inl s)
         | Inr w' \<Rightarrow> while_steps X p w')
      else Some (Inr w))"

declare while_steps.simps [code]

text \<open>
  Lines 159 to 161 and 190 to 192: one line per score in the order of the mapping, then the
  line with the whole mapping. The result is the lines logged and the error that stopped
  the logging, if any.
\<close>

fun log_metrics :: "scores \<Rightarrow> event list \<times> error option" where
  "log_metrics [] = ([], None)"
| "log_metrics ((k, v) # sc) =
     (if formats v
      then (case log_metrics sc of (lines, e) \<Rightarrow> (LogInfo (MetricLine k v) # lines, e))
      else ([], Some TypeError))"

definition log_scores :: "scores \<Rightarrow> event list \<times> error option" where
  "log_scores sc =
     (case log_metrics sc of
        (lines, Some e) \<Rightarrow> (lines, Some e)
      | (lines, None) \<Rightarrow>
          if list_all (\<lambda>(k, v). serialises v) sc
          then (lines @ [LogInfo (JsonLine sc)], None)
          else (lines, Some TypeError))"

text \<open>Lines 185 to 197: what the master does at the end of an epoch.\<close>

definition end_of_epoch ::
  "('e, 'm, 't, 'g) collaborators \<Rightarrow> ('t, 'g) world \<Rightarrow> ('t, 'g) outcome" where
  "end_of_epoch X w =
     (case run_all_evals X (the_trainer w) of
        Inl s \<Rightarrow> Inl (s, trace w @ [RunAllEvals])
      | Inr (sc, t) \<Rightarrow>
          (case log_scores sc of
             (lines, Some e) \<Rightarrow>
               Inl (Raised e, trace w @ [RunAllEvals, LogInfo (ScoresLine sc)] @ lines)
           | (lines, None) \<Rightarrow>
               (let w1 = w\<lparr>the_trainer := t,
                            trace := trace w @ [RunAllEvals, LogInfo (ScoresLine sc)] @ lines\<rparr> in
                case call_trainer (SaveBestModel sc) (trainer_save_best_model X sc) w1 of
                  Inl s \<Rightarrow> Inl s
                | Inr w2 \<Rightarrow>
                    (case call_trainer SavePeriodic (trainer_save_periodic X) w2 of
                       Inl s \<Rightarrow> Inl s
                     | Inr w3 \<Rightarrow> call_trainer (EndEpoch sc) (trainer_end_epoch X sc) w3))))"

text \<open>Lines 167 to 197: one pass of the body of the \<^verbatim>\<open>for\<close> loop over epochs.\<close>

definition start_epoch :: "('t, 'g) world \<Rightarrow> ('t, 'g) world" where
  "start_epoch w =
     (record_call (LogInfo (StartingEpoch (epoch (the_trainer w)))) w)
       \<lparr>the_trainer := (the_trainer w)\<lparr>n_equations := 0\<rparr>\<rparr>"

definition finish_epoch ::
  "('e, 'm, 't, 'g) collaborators \<Rightarrow> params \<Rightarrow> ('t, 'g) world \<Rightarrow> ('t, 'g) outcome" where
  "finish_epoch X p w =
     (let w1 = record_call (LogInfo (EndOfEpoch (epoch (the_trainer w)))) w in
      if is_master p then end_of_epoch X w1 else Inr w1)"

definition one_epoch ::
  "('e, 'm, 't, 'g) collaborators \<Rightarrow> params \<Rightarrow> ('t, 'g) world \<Rightarrow> ('t, 'g) outcome option" where
  "one_epoch X p w =
     (case while_steps X p (start_epoch w) of
        None \<Rightarrow> None
      | Some (Inl s) \<Rightarrow> Some (Inl s)
      | Some (Inr w') \<Rightarrow> Some (finish_epoch X p w'))"

text \<open>Line 165: \<^verbatim>\<open>for _ in range(params.max_epoch)\<close>, with the number of passes left.\<close>

fun epochs ::
  "('e, 'm, 't, 'g) collaborators \<Rightarrow> params \<Rightarrow> nat \<Rightarrow> ('t, 'g) world \<Rightarrow> ('t, 'g) outcome option" where
  "epochs X p 0 w = Some (Inr w)"
| "epochs X p (Suc n) w =
     (case one_epoch X p w of
        None \<Rightarrow> None
      | Some (Inl s) \<Rightarrow> Some (Inl s)
      | Some (Inr w') \<Rightarrow> epochs X p n w')"

subsection \<open>Start-up and the two modes (lines 137 to 165)\<close>

text \<open>
  Lines 139 to 154. The result is the configuration as the collaborators left it, the
  trainer, and the calls made; or the stop and the calls made before it.
\<close>

definition startup ::
  "('e, 'm, 't, 'g) collaborators \<Rightarrow> params \<Rightarrow>
     (stop \<times> event list) + (params \<times> 't trainer \<times> event list)" where
  "startup X params =
     (case init_distributed_mode X params of
        Inl s \<Rightarrow> Inl (s, [InitDistributedMode])
      | Inr p1 \<Rightarrow>
     (case initialize_exp X p1 of
        Inl s \<Rightarrow> Inl (s, [InitDistributedMode, InitializeExp])
      | Inr p2 \<Rightarrow>
     (case init_signal_handler X of
        Inl s \<Rightarrow> Inl (s, [InitDistributedMode, InitializeExp, InitSignalHandler])
      | Inr _ \<Rightarrow>
     (let tr = [InitDistributedMode, InitializeExp, InitSignalHandler] in
      if cpu p2 \<and> multi_gpu p2 then Inl (Raised AssertionError, tr)
      else if \<not> cpu p2 \<and> \<not> cuda_is_available X then Inl (Raised AssertionError, tr)
      else
        (let tr1 = tr @ [SetCUDA (\<not> cpu p2)] in
         case build_env X p2 of
           Inl s \<Rightarrow> Inl (s, tr1 @ [BuildEnv])
         | Inr (env, p3) \<Rightarrow>
        (case build_modules X env p3 of
           Inl s \<Rightarrow> Inl (s, tr1 @ [BuildEnv, BuildModules])
         | Inr modules \<Rightarrow>
        (case new_trainer X modules env p3 of
           Inl s \<Rightarrow> Inl (s, tr1 @ [BuildEnv, BuildModules, NewTrainer])
         | Inr t \<Rightarrow> Inr (p3, t, tr1 @ [BuildEnv, BuildModules, NewTrainer, NewEvaluator]))))))))"

text \<open>Lines 157 to 162: evaluation-only mode.\<close>

definition evaluate_and_exit ::
  "('e, 'm, 't, 'g) collaborators \<Rightarrow> 't trainer \<Rightarrow> event list \<Rightarrow> stop \<times> event list" where
  "evaluate_and_exit X t tr =
     (case run_all_evals X t of
        Inl s \<Rightarrow> (s, tr @ [RunAllEvals])
      | Inr (sc, t') \<Rightarrow>
          (case log_scores sc of
             (lines, Some e) \<Rightarrow> (Raised e, tr @ [RunAllEvals] @ lines)
           | (lines, None) \<Rightarrow> (Exit, tr @ [RunAllEvals] @ lines)))"

definition main ::
  "('e, 'm, 't, 'g) collaborators \<Rightarrow> params \<Rightarrow> 'g \<Rightarrow> ('t, 'g) outcome option" where
  "main X params g =
     (case startup X params of
        Inl s \<Rightarrow> Some (Inl s)
      | Inr (p, t, tr) \<Rightarrow>
          if eval_only p then Some (Inl (evaluate_and_exit X t tr))
          else epochs X p (nat (max_epoch p)) \<lparr>the_trainer = t, rng = g, trace = tr\<rparr>)"

section \<open>Vocabulary of the properties\<close>

subsection \<open>Reconciliation\<close>

definition identity_keys :: "string list" where
  "identity_keys = [''exp_id'', ''dump_path'', ''exp_name'']"

text \<open>The fields that lines 236 to 241 assign after the merge.\<close>

definition forced_keys :: "string list" where
  "forced_keys = [''eval_only'', ''reload_model'', ''eval_size'', ''reload_data'']"

text \<open>\<^verbatim>\<open>s.split(c)\<close> for a separator of one character.\<close>

fun split_on :: "char \<Rightarrow> string \<Rightarrow> string list" where
  "split_on c [] = [[]]"
| "split_on c (x # xs) =
     (if x = c then [] # split_on c xs
      else (case split_on c xs of [] \<Rightarrow> [[x]] | w # ws \<Rightarrow> (x # w) # ws))"

text \<open>
  Modelled from the spec: the reader of the reload-data string belongs to the trainer, which
  is not part of \<^verbatim>\<open>train.py\<close>. The format is the one the help text of
  \<^verbatim>\<open>--reload_data\<close> gives (line 85) and the design notes of the spec repeat: entries
  separated by \<^verbatim>\<open>;\<close>, each \<^verbatim>\<open>task,train_path,valid_path,test_path_1,...\<close>, read as a
  record of the task, its train path, its valid path and its ordered test paths.
\<close>

record reload_entry =
  entry_task :: string
  train_path :: string
  valid_path :: string
  test_paths :: "string list"

definition parse_entry :: "string \<Rightarrow> reload_entry option" where
  "parse_entry x =
     (case split_on CHR '','' x of
        t # tr # va # tests \<Rightarrow>
          Some \<lparr>entry_task = t, train_path = tr, valid_path = va, test_paths = tests\<rparr>
      | _ \<Rightarrow> None)"

definition parse_reload_data :: "string \<Rightarrow> reload_entry option list" where
  "parse_reload_data s = map parse_entry (filter (\<lambda>x. x \<noteq> []) (split_on CHR '';'' s))"

subsection \<open>The orchestrator\<close>

text \<open>The calls made so far, whether the run stopped or goes on.\<close>

definition out_trace :: "('t, 'g) outcome \<Rightarrow> event list" where
  "out_trace r = (case r of Inl (s, tr) \<Rightarrow> tr | Inr w \<Rightarrow> trace w)"

definition work_event :: "params \<Rightarrow> task \<Rightarrow> event" where
  "work_event p task = (if export_data p then ExportData task else EncDecStep task)"

text \<open>The calls of one inner step that runs to its end with the task ids \<open>ids\<close> drawn.\<close>

definition step_calls :: "params \<Rightarrow> nat list \<Rightarrow> event list" where
  "step_calls p ids =
     Permutation ids # concat (map (\<lambda>i. [work_event p (tasks p ! i), Iter]) ids)"

text \<open>The evaluation pass, the checkpoint writes and the stopping-criterion update.\<close>

fun master_only :: "event \<Rightarrow> bool" where
  "master_only RunAllEvals = True"
| "master_only (SaveBestModel sc) = True"
| "master_only SavePeriodic = True"
| "master_only (EndEpoch sc) = True"
| "master_only _ = False"

definition boundary_calls :: "scores \<Rightarrow> event list" where
  "boundary_calls sc = [RunAllEvals, SaveBestModel sc, SavePeriodic, EndEpoch sc]"

fun starts_epoch :: "event \<Rightarrow> bool" where
  "starts_epoch (LogInfo (StartingEpoch n)) = True"
| "starts_epoch _ = False"

text \<open>
  What the loop needs of the trainer to end: the bookkeeping call raises the work-unit
  counter, a work unit does not lower it, and neither moves the epoch size.
\<close>

definition counter_advances :: "('e, 'm, 't, 'g) collaborators \<Rightarrow> bool" where
  "counter_advances X \<longleftrightarrow>
     (\<forall>t t'. trainer_iter X t = Inr t' \<longrightarrow>
        n_equations t < n_equations t' \<and> epoch_size t' = epoch_size t) \<and>
     (\<forall>task t t'. trainer_export_data X task t = Inr t' \<longrightarrow>
        n_equations t \<le> n_equations t' \<and> epoch_size t' = epoch_size t) \<and>
     (\<forall>task t t'. trainer_enc_dec_step X task t = Inr t' \<longrightarrow>
        n_equations t \<le> n_equations t' \<and> epoch_size t' = epoch_size t)"

text \<open>The calls made inside the \<^verbatim>\<open>while\<close> loop.\<close>

fun loop_call :: "event \<Rightarrow> bool" where
  "loop_call (Permutation ids) = True"
| "loop_call (ExportData task) = True"
| "loop_call (EncDecStep task) = True"
| "loop_call Iter = True"
| "loop_call _ = False"

text \<open>A trainer none of whose calls in the loop moves the work-unit counter or the epoch size.\<close>

definition counter_untouched :: "('e, 'm, 't, 'g) collaborators \<Rightarrow> bool" where
  "counter_untouched X \<longleftrightarrow>
     (\<forall>t t'. trainer_iter X t = Inr t' \<longrightarrow>
        n_equations t' = n_equations t \<and> epoch_size t' = epoch_size t) \<and>
     (\<forall>task t t'. trainer_export_data X task t = Inr t' \<longrightarrow>
        n_equations t' = n_equations t \<and> epoch_size t' = epoch_size t) \<and>
     (\<forall>task t t'. trainer_enc_dec_step X task t = Inr t' \<longrightarrow>
        n_equations t' = n_equations t \<and> epoch_size t' = epoch_size t)"

text \<open>Lines 176 to 179: the work unit of a task, by mode.\<close>

definition work_unit ::
  "('e, 'm, 't, 'g) collaborators \<Rightarrow> params \<Rightarrow> task \<Rightarrow> 't trainer \<Rightarrow> stop + 't trainer" where
  "work_unit X p task t =
     (if export_data p then trainer_export_data X task t else trainer_enc_dec_step X task t)"

text \<open>
  Following the spec: for each task of an order in turn, one unit of work and then the
  bookkeeping call, each on the trainer as the call before left it, until a call stops
  the program. The result is the trainer and the calls made, or the stop and the calls
  made up to it.
\<close>

fun per_task_calls ::
  "('e, 'm, 't, 'g) collaborators \<Rightarrow> params \<Rightarrow> task list \<Rightarrow> 't trainer \<Rightarrow>
     (stop \<times> event list) + ('t trainer \<times> event list)" where
  "per_task_calls X p [] t = Inr (t, [])"
| "per_task_calls X p (task # order) t =
     (case work_unit X p task t of
        Inl s \<Rightarrow> Inl (s, [work_event p task])
      | Inr t1 \<Rightarrow>
          (case trainer_iter X t1 of
             Inl s \<Rightarrow> Inl (s, [work_event p task, Iter])
           | Inr t2 \<Rightarrow>
               (case per_task_calls X p order t2 of
                  Inl (s, calls) \<Rightarrow> Inl (s, work_event p task # Iter # calls)
                | Inr (t3, calls) \<Rightarrow> Inr (t3, work_event p task # Iter # calls))))"

text \<open>A score mapping whose every value both logging lines accept.\<close>

definition plain_scores :: "scores \<Rightarrow> bool" where
  "plain_scores sc = list_all (\<lambda>(k, v). formats v \<and> serialises v) sc"

definition metric_lines :: "scores \<Rightarrow> event list" where
  "metric_lines sc = map (\<lambda>(k, v). LogInfo (MetricLine k v)) sc"

text \<open>The evaluation pass at the end of an epoch with the lines logged after it.\<close>

definition evaluation_calls :: "scores \<Rightarrow> event list" where
  "evaluation_calls sc =
     RunAllEvals # LogInfo (ScoresLine sc) # metric_lines sc @ [LogInfo (JsonLine sc)]"

text \<open>The checkpoint writes and the stopping-criterion update that follow the evaluation.\<close>

definition boundary_updates :: "scores \<Rightarrow> event list" where
  "boundary_updates sc = [SaveBestModel sc, SavePeriodic, EndEpoch sc]"

text \<open>A trainer none of whose calls in the loop moves the epoch size.\<close>

definition epoch_size_fixed :: "('e, 'm, 't, 'g) collaborators \<Rightarrow> bool" where
  "epoch_size_fixed X \<longleftrightarrow>
     (\<forall>t t'. trainer_iter X t = Inr t' \<longrightarrow> epoch_size t' = epoch_size t) \<and>
     (\<forall>task t t'. trainer_export_data X task t = Inr t' \<longrightarrow> epoch_size t' = epoch_size t) \<and>
     (\<forall>task t t'. trainer_enc_dec_step X task t = Inr t' \<longrightarrow> epoch_size t' = epoch_size t)"

section \<open>Example inputs\<close>

subsection \<open>An evaluation run from an earlier experiment\<close>

text \<open>
  A command line that asks for evaluation from \<^verbatim>\<open>/exp/run1\<close> on the data at
  \<^verbatim>\<open>/data/eval\<close>, the snapshot that experiment left, the configuration after the merge
  and after reconciliation, and the disk.
\<close>

definition example_snapshot :: namespace where
  "example_snapshot =
     [(''exp_id'', PStr ''run1''), (''dump_path'', PStr ''/exp''), (''exp_name'', PStr ''lyap''),
      (''eval_only'', PBool False), (''eval_from_exp'', PStr ''''),
      (''validation_metrics'', PStr ''acc''), (''tasks'', PStr ''ode_lyapunov''),
      (''beam_size'', PInt 1), (''emb_dim'', PInt 640), (''eval_size'', PInt 5000),
      (''reload_data'', PStr ''''), (''reload_model'', PStr '''')]"

definition example_params :: namespace where
  "example_params =
     [(''exp_id'', PStr ''''), (''dump_path'', PStr ''/tmp''), (''exp_name'', PStr ''debug''),
      (''eval_only'', PBool True), (''eval_from_exp'', PStr ''/exp/run1''),
      (''eval_data'', PStr ''/data/eval''), (''validation_metrics'', PStr ''''),
      (''tasks'', PStr ''ode''), (''beam_size'', PInt 10), (''emb_dim'', PInt 128),
      (''eval_size'', PInt 10000), (''reload_data'', PStr ''''), (''reload_model'', PStr '''')]"

definition example_merged :: namespace where
  "example_merged =
     [(''exp_id'', PStr ''''), (''dump_path'', PStr ''/tmp''), (''exp_name'', PStr ''debug''),
      (''eval_only'', PBool False), (''eval_from_exp'', PStr ''''),
      (''eval_data'', PStr ''/data/eval''), (''validation_metrics'', PStr ''acc''),
      (''tasks'', PStr ''ode_lyapunov''), (''beam_size'', PInt 10), (''emb_dim'', PInt 640),
      (''eval_size'', PInt 5000), (''reload_data'', PStr ''''), (''reload_model'', PStr '''')]"

definition example_out :: namespace where
  "example_out =
     [(''exp_id'', PStr ''''), (''dump_path'', PStr ''/tmp''), (''exp_name'', PStr ''debug''),
      (''eval_only'', PBool True), (''eval_from_exp'', PStr ''''),
      (''eval_data'', PStr ''/data/eval''), (''validation_metrics'', PStr ''acc''),
      (''tasks'', PStr ''ode_lyapunov''), (''beam_size'', PInt 10), (''emb_dim'', PInt 640),
      (''eval_size'', PNone),
      (''reload_data'', PStr ''ode_lyapunov,/data/eval,/data/eval''),
      (''reload_model'', PStr ''/exp/run1/best-acc.pth'')]"

definition example_fs :: filesystem where
  "example_fs path =
     (if path = ''/exp/run1/params.pkl'' then Some (PickleFile example_snapshot)
      else if path = ''/exp/run1/best-acc.pth'' then Some DataFile
      else None)"

text \<open>The same experiment directory without its best model.\<close>

definition example_fs_no_model :: filesystem where
  "example_fs_no_model path =
     (if path = ''/exp/run1/params.pkl'' then Some (PickleFile example_snapshot) else None)"

text \<open>A snapshot that lacks the experiment name.\<close>

definition example_fs_no_name :: filesystem where
  "example_fs_no_name path =
     (if path = ''/exp/run1/params.pkl''
      then Some (PickleFile (AList.delete ''exp_name'' example_snapshot))
      else if path = ''/exp/run1/best-acc.pth'' then Some DataFile
      else None)"

subsection \<open>A small run of the orchestrator\<close>

text \<open>
  Two tasks, an epoch size of four work units, one epoch. The bookkeeping call adds one to
  the work-unit counter, so an epoch is two inner steps. The generator hands out its own
  state and moves on by one.
\<close>

definition example_collaborators :: "(unit, unit, unit, nat) collaborators" where
  "example_collaborators =
     \<lparr>init_distributed_mode = (\<lambda>p. Inr (p\<lparr>multi_gpu := False, is_master := True\<rparr>)),
      initialize_exp = Inr,
      init_signal_handler = Inr (),
      cuda_is_available = True,
      build_env = (\<lambda>p. Inr ((), p)),
      build_modules = (\<lambda>env p. Inr ()),
      new_trainer = (\<lambda>modules env p.
         Inr \<lparr>n_equations = 0, epoch_size = 4, epoch = 0, internals = ()\<rparr>),
      run_all_evals = (\<lambda>t. Inr ([(''valid_acc'', PyFloat 1)], t)),
      trainer_export_data = (\<lambda>task t. Inr t),
      trainer_enc_dec_step = (\<lambda>task t. Inr t),
      trainer_iter = (\<lambda>t. Inr (t\<lparr>n_equations := n_equations t + 1\<rparr>)),
      trainer_save_best_model = (\<lambda>sc t. Inr t),
      trainer_save_periodic = Inr,
      trainer_end_epoch = (\<lambda>sc t. Inr (t\<lparr>epoch := epoch t + 1\<rparr>)),
      next_draw = (\<lambda>g. (g, Suc g))\<rparr>"

definition example_config :: params where
  "example_config =
     \<lparr>cpu = False, multi_gpu = False, is_master = True, eval_only = False, max_epoch = 1,
      tasks = [''t1'', ''t2''], export_data = False\<rparr>"

definition example_trainer :: "unit trainer" where
  "example_trainer = \<lparr>n_equations = 0, epoch_size = 4, epoch = 0, internals = ()\<rparr>"

definition startup_calls :: "event list" where
  "startup_calls =
     [InitDistributedMode, InitializeExp, InitSignalHandler, SetCUDA True,
      BuildEnv, BuildModules, NewTrainer, NewEvaluator]"

text \<open>The worlds of that run: at the first epoch, after one inner step, after the loop, at the end.\<close>

definition example_start :: "(unit, nat) world" where
  "example_start = \<lparr>the_trainer = example_trainer, rng = 0, trace = startup_calls\<rparr>"

definition example_step_end :: "(unit, nat) world" where
  "example_step_end =
     \<lparr>the_trainer = example_trainer\<lparr>n_equations := 2\<rparr>, rng = 1,
      trace = startup_calls @
        [Permutation [1, 0], EncDecStep ''t2'', Iter, EncDecStep ''t1'', Iter]\<rparr>"

definition example_loop_end :: "(unit, nat) world" where
  "example_loop_end =
     \<lparr>the_trainer = example_trainer\<lparr>n_equations := 4\<rparr>, rng = 2,
      trace = startup_calls @
        [Permutation [1, 0], EncDecStep ''t2'', Iter, EncDecStep ''t1'', Iter,
         Permutation [0, 1], EncDecStep ''t1'', Iter, EncDecStep ''t2'', Iter]\<rparr>"

text \<open>The world of that run when the loop of its epoch is left.\<close>

definition example_epoch_loop_end :: "(unit, nat) world" where
  "example_epoch_loop_end =
     \<lparr>the_trainer = example_trainer\<lparr>n_equations := 4\<rparr>, rng = 2,
      trace = startup_calls @
        [LogInfo (StartingEpoch 0),
         Permutation [1, 0], EncDecStep ''t2'', Iter, EncDecStep ''t1'', Iter,
         Permutation [0, 1], EncDecStep ''t1'', Iter, EncDecStep ''t2'', Iter]\<rparr>"

definition example_loop_calls :: "event list" where
  "example_loop_calls =
     [LogInfo (StartingEpoch 0),
      Permutation [1, 0], EncDecStep ''t2'', Iter, EncDecStep ''t1'', Iter,
      Permutation [0, 1], EncDecStep ''t1'', Iter, EncDecStep ''t2'', Iter,
      LogInfo (EndOfEpoch 0)]"

definition example_scores :: scores where
  "example_scores = [(''valid_acc'', PyFloat 1)]"

definition example_final :: "(unit, nat) world" where
  "example_final =
     \<lparr>the_trainer = example_trainer\<lparr>n_equations := 4, epoch := 1\<rparr>, rng = 2,
      trace = startup_calls @ example_loop_calls @
        [RunAllEvals, LogInfo (ScoresLine example_scores),
         LogInfo (MetricLine ''valid_acc'' (PyFloat 1)), LogInfo (JsonLine example_scores),
         SaveBestModel example_scores, SavePeriodic, EndEpoch example_scores]\<rparr>"

text \<open>The same run on a process that is not the master.\<close>

definition example_final_worker :: "(unit, nat) world" where
  "example_final_worker =
     \<lparr>the_trainer = example_trainer\<lparr>n_equations := 4\<rparr>, rng = 2,
      trace = startup_calls @ example_loop_calls\<rparr>"

text \<open>A start-up that finds several processes, for a configuration that asks for the CPU.\<close>

definition example_multi_gpu :: "(unit, unit, unit, nat) collaborators" where
  "example_multi_gpu =
     example_collaborators
       \<lparr>init_distributed_mode := (\<lambda>p. Inr (p\<lparr>multi_gpu := True, is_master := True\<rparr>))\<rparr>"

text \<open>A trainer whose bookkeeping call leaves the work-unit counter alone.\<close>

definition example_idle :: "(unit, unit, unit, nat) collaborators" where
  "example_idle = example_collaborators\<lparr>trainer_iter := Inr\<rparr>"

text \<open>An evaluator whose score is a NumPy \<^verbatim>\<open>float32\<close>.\<close>

definition example_float32 :: "(unit, unit, unit, nat) collaborators" where
  "example_float32 =
     example_collaborators
       \<lparr>run_all_evals := (\<lambda>t. Inr ([(''valid_acc'', NumpyFloat32 1)], t))\<rparr>"

text \<open>A trainer whose training step counts the work units and whose bookkeeping call does not.\<close>

definition example_step_counts :: "(unit, unit, unit, nat) collaborators" where
  "example_step_counts =
     example_collaborators
       \<lparr>trainer_enc_dec_step := (\<lambda>task t. Inr (t\<lparr>n_equations := n_equations t + 1\<rparr>)),
        trainer_iter := Inr\<rparr>"

text \<open>The first epoch of a run configured with an epoch size of zero.\<close>

definition example_size_zero :: "(unit, nat) world" where
  "example_size_zero =
     \<lparr>the_trainer = example_trainer\<lparr>epoch_size := 0\<rparr>, rng = 0, trace = startup_calls\<rparr>"


section \<open>Facts about namespaces and reconciliation\<close>

lemma bind_Inr: "bind (Inr v) f = f v"
  by (simp add: bind_def)
lemma bind_Inl: "bind (Inl e) f = Inl e"
  by (simp add: bind_def)
lemma bind_weak_cong: "r = r' \<Longrightarrow> bind r f = bind r' f"
  by simp

lemma bind_eq_Inr: "bind r f = Inr y \<longleftrightarrow> (\<exists>v. r = Inr v \<and> f v = Inr y)"
  by (cases r) (simp_all add: bind_def)

lemma map_of_setattr: "map_of (setattr ns k v) k' = (if k' = k then Some v else map_of ns k')"
  by (simp add: setattr_def update_conv')

lemma map_of_strip_fold:
  "map_of (fold (\<lambda>key d. if map_of d key \<noteq> None then AList.delete key d else d) ks d) k =
     (if k \<in> set ks then None else map_of d k)"
  by (induction ks arbitrary: d) (auto simp: delete_conv')

lemma map_of_strip_excluded:
  "map_of (strip_excluded d) k = (if k \<in> set excluded_keys then None else map_of d k)"
  unfolding strip_excluded_def by (rule map_of_strip_fold)

lemma map_of_overlay_fold:
  "map_of (fold (\<lambda>p ps. case map_of pk p of None \<Rightarrow> ps | Some v \<Rightarrow> AList.update p v ps) ks acc) k =
     (if k \<in> set ks then (case map_of pk k of None \<Rightarrow> map_of acc k | Some v \<Rightarrow> Some v)
      else map_of acc k)"
  by (induction ks arbitrary: acc) (auto simp: update_conv' split: option.splits)

lemma map_of_overlay:
  "map_of (overlay pk ps) k =
     (case map_of ps k of None \<Rightarrow> None
      | Some u \<Rightarrow> (case map_of pk k of None \<Rightarrow> Some u | Some v \<Rightarrow> Some v))"
proof -
  have mem: "k \<in> set (map fst ps) \<longleftrightarrow> map_of ps k \<noteq> None"
    by (simp add: map_of_eq_None_iff)
  show ?thesis
  proof (cases "map_of ps k")
    case None
    with mem show ?thesis by (simp add: overlay_def map_of_overlay_fold)
  next
    case (Some u)
    with mem have "k \<in> set (map fst ps)" by simp
    with Some show ?thesis by (simp add: overlay_def map_of_overlay_fold split: option.splits)
  qed
qed

lemma strip_identity_cases:
  "strip_identity pk =
     (if map_of pk ''exp_id'' = None then Inl (KeyError ''exp_id'')
      else if map_of pk ''dump_path'' = None then Inl (KeyError ''dump_path'')
      else if map_of pk ''exp_name'' = None then Inl (KeyError ''exp_name'')
      else Inr (AList.delete ''exp_name'' (AList.delete ''dump_path'' (AList.delete ''exp_id'' pk))))"
  by (simp add: strip_identity_def bind_def del_key_def delete_conv')

lemma map_of_strip_identity:
  "strip_identity pk = Inr d \<Longrightarrow>
     map_of d k = (if k \<in> set identity_keys then None else map_of pk k)"
  by (auto simp: strip_identity_cases identity_keys_def delete_conv' split: if_splits)

lemma merge_snapshot_Inr:
  assumes "merge_snapshot fs (PStr dir) params = Inr merged"
  shows "\<exists>pk d. isfile fs (dir @ ''/params.pkl'') \<and> pickle_load fs (dir @ ''/params.pkl'') = Inr pk \<and>
           strip_identity pk = Inr d \<and> merged = overlay (strip_excluded d) params"
  using assms
  by (auto simp: merge_snapshot_def bind_eq_Inr split: if_splits)

lemma map_of_merged:
  assumes "merge_snapshot fs (PStr dir) params = Inr merged"
    and "pickle_load fs (dir @ ''/params.pkl'') = Inr snapshot"
  shows "map_of merged k =
     (case map_of params k of None \<Rightarrow> None
      | Some u \<Rightarrow>
          if k \<in> set (identity_keys @ excluded_keys) then Some u
          else (case map_of snapshot k of None \<Rightarrow> Some u | Some v \<Rightarrow> Some v))"
proof -
  from merge_snapshot_Inr [OF assms(1)] assms(2) obtain d where
    d: "strip_identity snapshot = Inr d" and m: "merged = overlay (strip_excluded d) params"
    by auto
  show ?thesis
    unfolding m map_of_overlay map_of_strip_excluded map_of_strip_identity [OF d]
    by (auto split: option.splits)
qed

lemma reconcile_active:
  assumes "from_exp_requested params = Inr True"
    and "getattr params ''eval_from_exp'' = Inr e"
  shows "reconcile fs params = bind (merge_snapshot fs e params) (after_merge fs e)"
  using assms by (simp add: reconcile_def bind_Inr)

lemma force_reload_model_eq:
  "force_reload_model fs (PStr dir) merged =
     (case map_of merged ''validation_metrics'' of
        None \<Rightarrow> Inl (AttributeError ''validation_metrics'')
      | Some v \<Rightarrow>
          (case v of
             PStr vm \<Rightarrow>
               if isfile fs (dir @ ''/best-'' @ vm @ ''.pth'')
               then Inr (setattr (setattr merged ''eval_only'' (PBool True)) ''reload_model''
                           (PStr (dir @ ''/best-'' @ vm @ ''.pth'')))
               else Inl AssertionError
           | _ \<Rightarrow> Inl TypeError))"
  by (simp add: force_reload_model_def Let_def bind_def getattr_def map_of_setattr
      split: option.splits pyval.splits)

lemma use_eval_data_eq:
  "use_eval_data ns =
     (case map_of ns ''eval_data'' of
        None \<Rightarrow> Inl (AttributeError ''eval_data'')
      | Some ed \<Rightarrow>
          if ed = PStr '''' then Inr ns
          else
            (case map_of ns ''tasks'' of
               None \<Rightarrow> Inl (AttributeError ''tasks'')
             | Some tv \<Rightarrow>
                 (case tv of
                    PStr ts \<Rightarrow>
                      (case ed of
                         PStr path \<Rightarrow>
                           Inr (setattr (setattr ns ''eval_size'' PNone) ''reload_data''
                                  (PStr (ts @ '','' @ path @ '','' @ path)))
                       | _ \<Rightarrow> Inl TypeError)
                  | _ \<Rightarrow> Inl TypeError)))"
  by (simp add: use_eval_data_def Let_def bind_def getattr_def map_of_setattr
      split: option.splits pyval.splits)

lemma example_guard: "from_exp_requested example_params = Inr True"
  by (simp add: from_exp_requested_def bind_Inr getattr_def example_params_def
      cong: bind_weak_cong)

lemma example_dir: "getattr example_params ''eval_from_exp'' = Inr (PStr ''/exp/run1'')"
  by (simp add: getattr_def example_params_def)

lemma example_load:
  "pickle_load example_fs (''/exp/run1'' @ ''/params.pkl'') = Inr example_snapshot"
  by (simp add: pickle_load_def example_fs_def)

lemma example_merge:
  "merge_snapshot example_fs (PStr ''/exp/run1'') example_params = Inr example_merged"
  by (simp add: merge_snapshot_def bind_Inr isfile_def pickle_load_def example_fs_def
      strip_identity_cases example_snapshot_def strip_excluded_def excluded_keys_def
      overlay_def example_params_def example_merged_def cong: bind_weak_cong)

lemma example_after:
  "after_merge example_fs (PStr ''/exp/run1'') example_merged = Inr example_out"
  by (simp add: after_merge_def force_reload_model_eq use_eval_data_eq bind_Inr isfile_def
      example_fs_def example_merged_def example_out_def setattr_def cong: bind_weak_cong)

lemma example_reconcile: "reconcile example_fs example_params = Inr example_out"
  by (simp add: reconcile_active [OF example_guard example_dir] example_merge example_after bind_Inr)

lemma reconcile_Inr:
  assumes "from_exp_requested params = Inr True"
    and "getattr params ''eval_from_exp'' = Inr (PStr dir)"
    and "reconcile fs params = Inr out"
  shows "\<exists>merged forced. merge_snapshot fs (PStr dir) params = Inr merged \<and>
           force_reload_model fs (PStr dir) merged = Inr forced \<and> use_eval_data forced = Inr out"
  using assms(3) unfolding reconcile_active [OF assms(1,2)] after_merge_def
  by (auto simp: bind_eq_Inr)

lemma force_reload_model_Inr:
  assumes "force_reload_model fs (PStr dir) merged = Inr forced"
  shows "\<exists>vm. map_of merged ''validation_metrics'' = Some (PStr vm) \<and>
           isfile fs (dir @ ''/best-'' @ vm @ ''.pth'') \<and>
           forced = setattr (setattr merged ''eval_only'' (PBool True)) ''reload_model''
                      (PStr (dir @ ''/best-'' @ vm @ ''.pth''))"
  using assms unfolding force_reload_model_eq
  by (auto split: option.splits pyval.splits if_splits)

lemma use_eval_data_Inr:
  assumes "use_eval_data ns = Inr out"
  shows "\<exists>ed. map_of ns ''eval_data'' = Some ed \<and>
           (if ed = PStr '''' then out = ns
            else (\<exists>ts path. map_of ns ''tasks'' = Some (PStr ts) \<and> ed = PStr path \<and>
                    out = setattr (setattr ns ''eval_size'' PNone) ''reload_data''
                            (PStr (ts @ '','' @ path @ '','' @ path))))"
  using assms unfolding use_eval_data_eq
  by (auto split: option.splits pyval.splits if_splits)

lemma force_other_keys:
  assumes "force_reload_model fs (PStr dir) merged = Inr forced"
    and "k \<noteq> ''eval_only''" and "k \<noteq> ''reload_model''"
  shows "map_of forced k = map_of merged k"
  using force_reload_model_Inr [OF assms(1)] assms(2,3) by (auto simp: map_of_setattr)

lemma use_other_keys:
  assumes "use_eval_data ns = Inr out"
    and "k \<noteq> ''eval_size''" and "k \<noteq> ''reload_data''"
  shows "map_of out k = map_of ns k"
  using use_eval_data_Inr [OF assms(1)] assms(2,3)
  by (auto simp: map_of_setattr split: if_splits)

lemma excluded_not_forced:
  "k \<in> set (identity_keys @ excluded_keys) \<Longrightarrow> k \<notin> set forced_keys"
  by (auto simp: identity_keys_def excluded_keys_def forced_keys_def)

lemma after_merge_other_keys:
  assumes "force_reload_model fs (PStr dir) merged = Inr forced"
    and "use_eval_data forced = Inr out" and "k \<notin> set forced_keys"
  shows "map_of out k = map_of merged k"
proof -
  from assms(3) have k: "k \<noteq> ''eval_only''" "k \<noteq> ''reload_model''"
    "k \<noteq> ''eval_size''" "k \<noteq> ''reload_data''"
    by (auto simp: forced_keys_def)
  show ?thesis
    using use_other_keys [OF assms(2) k(3,4)] force_other_keys [OF assms(1) k(1,2)] by simp
qed

text \<open>
  Claim C3. When reconciliation is active and the merge of lines 207 to 234 succeeds,
  then after the merge every excluded field (the three identity fields and the eleven
  per-run fields) has the value of the current configuration, and every other field that
  the current configuration and the snapshot both have has the value of the snapshot. The
  merge does nothing else: a field the snapshot lacks keeps the current value, and no field
  is added. At the end of reconciliation every excluded field still has the value of the
  current configuration, and a shared field that is not excluded still has the value of the
  snapshot unless lines 236 to 241 assigned it since: \<^verbatim>\<open>eval_only\<close> and
  \<^verbatim>\<open>reload_model\<close> always, \<^verbatim>\<open>eval_size\<close> and \<^verbatim>\<open>reload_data\<close> when an
  evaluation-data path is supplied.
\<close>

theorem merge_keeps_excluded_takes_shared:
  assumes "from_exp_requested params = Inr True"
    and "getattr params ''eval_from_exp'' = Inr (PStr dir)"
    and "pickle_load fs (dir @ ''/params.pkl'') = Inr snapshot"
    and "merge_snapshot fs (PStr dir) params = Inr merged"
  shows "(\<forall>k \<in> set (identity_keys @ excluded_keys). map_of merged k = map_of params k) \<and>
         (\<forall>k v. k \<notin> set (identity_keys @ excluded_keys) \<and> map_of params k \<noteq> None \<and>
            map_of snapshot k = Some v \<longrightarrow> map_of merged k = Some v) \<and>
         (\<forall>k. map_of snapshot k = None \<longrightarrow> map_of merged k = map_of params k) \<and>
         (\<forall>k. map_of params k = None \<longrightarrow> map_of merged k = None) \<and>
         (\<forall>out. reconcile fs params = Inr out \<longrightarrow>
            (\<forall>k \<in> set (identity_keys @ excluded_keys). map_of out k = map_of params k) \<and>
            (\<forall>k v. k \<notin> set (identity_keys @ excluded_keys) \<and> map_of params k \<noteq> None \<and>
               map_of snapshot k = Some v \<and> k \<noteq> ''eval_only'' \<and> k \<noteq> ''reload_model'' \<and>
               (map_of params ''eval_data'' = Some (PStr '''') \<or>
                k \<noteq> ''eval_size'' \<and> k \<noteq> ''reload_data'') \<longrightarrow>
               map_of out k = Some v))"
proof -
  note mm = map_of_merged [OF assms(4,3)]
  have shared: "map_of merged k = Some v"
    if "k \<notin> set (identity_keys @ excluded_keys)" "map_of params k \<noteq> None"
      "map_of snapshot k = Some v" for k v
    using that by (auto simp: mm [of k])
  have kept: "map_of merged k = map_of params k"
    if "k \<in> set (identity_keys @ excluded_keys)" for k
    using that by (auto simp: mm [of k] split: option.splits)
  have lacks: "map_of merged k = map_of params k" if "map_of snapshot k = None" for k
    using that by (auto simp: mm [of k] split: option.splits)
  have absent: "map_of merged k = None" if "map_of params k = None" for k
    using that by (simp add: mm [of k])
  have final: "(\<forall>k \<in> set (identity_keys @ excluded_keys). map_of out k = map_of params k) \<and>
            (\<forall>k v. k \<notin> set (identity_keys @ excluded_keys) \<and> map_of params k \<noteq> None \<and>
               map_of snapshot k = Some v \<and> k \<noteq> ''eval_only'' \<and> k \<noteq> ''reload_model'' \<and>
               (map_of params ''eval_data'' = Some (PStr '''') \<or>
                k \<noteq> ''eval_size'' \<and> k \<noteq> ''reload_data'') \<longrightarrow>
               map_of out k = Some v)"
    if r: "reconcile fs params = Inr out" for out
  proof -
    from reconcile_Inr [OF assms(1,2) r] assms(4) obtain forced where
      f: "force_reload_model fs (PStr dir) merged = Inr forced"
      and u: "use_eval_data forced = Inr out"
      by auto
    have ed: "map_of forced ''eval_data'' = map_of params ''eval_data''"
    proof -
      have "''eval_data'' \<in> set (identity_keys @ excluded_keys)"
        by (simp add: excluded_keys_def)
      from kept [OF this] force_other_keys [OF f, of "''eval_data''"] show ?thesis by simp
    qed
    have one: "map_of out k = map_of params k"
      if k: "k \<in> set (identity_keys @ excluded_keys)" for k
      using after_merge_other_keys [OF f u excluded_not_forced [OF k]] kept [OF k] by simp
    have two: "map_of out k = Some v"
      if k: "k \<notin> set (identity_keys @ excluded_keys)" "map_of params k \<noteq> None"
        "map_of snapshot k = Some v" "k \<noteq> ''eval_only''" "k \<noteq> ''reload_model''"
        "map_of params ''eval_data'' = Some (PStr '''') \<or>
           k \<noteq> ''eval_size'' \<and> k \<noteq> ''reload_data''" for k v
    proof -
      have fm: "map_of forced k = Some v"
        using force_other_keys [OF f k(4,5)] shared [OF k(1,2,3)] by simp
      from k(6) show ?thesis
      proof
        assume "map_of params ''eval_data'' = Some (PStr '''')"
        with ed use_eval_data_Inr [OF u] have "out = forced" by auto
        with fm show ?thesis by simp
      next
        assume "k \<noteq> ''eval_size'' \<and> k \<noteq> ''reload_data''"
        with use_other_keys [OF u, of k] fm show ?thesis by simp
      qed
    qed
    from one two show ?thesis by blast
  qed
  from kept shared lacks absent final show ?thesis by blast
qed

text \<open>
  The example run. After the merge \<^verbatim>\<open>beam_size\<close>, which is excluded, has the
  command-line value, and \<^verbatim>\<open>emb_dim\<close>, \<^verbatim>\<open>eval_only\<close> and \<^verbatim>\<open>eval_size\<close>, which are
  shared, have the values of the snapshot; at the end \<^verbatim>\<open>emb_dim\<close> still has.
\<close>

theorem merge_keeps_excluded_takes_shared_witness:
  "from_exp_requested example_params = Inr True \<and>
   getattr example_params ''eval_from_exp'' = Inr (PStr ''/exp/run1'') \<and>
   pickle_load example_fs (''/exp/run1'' @ ''/params.pkl'') = Inr example_snapshot \<and>
   merge_snapshot example_fs (PStr ''/exp/run1'') example_params = Inr example_merged \<and>
   reconcile example_fs example_params = Inr example_out \<and>
   map_of example_merged ''beam_size'' = map_of example_params ''beam_size'' \<and>
   map_of example_merged ''emb_dim'' = Some (PInt 640) \<and>
   map_of example_merged ''eval_only'' = Some (PBool False) \<and>
   map_of example_merged ''eval_size'' = Some (PInt 5000) \<and>
   map_of example_out ''beam_size'' = map_of example_params ''beam_size'' \<and>
   map_of example_out ''emb_dim'' = Some (PInt 640)"
proof -
  note t = merge_keeps_excluded_takes_shared
             [OF example_guard example_dir example_load example_merge]
  have b: "''beam_size'' \<in> set (identity_keys @ excluded_keys)"
    by (simp add: excluded_keys_def)
  have e: "''emb_dim'' \<notin> set (identity_keys @ excluded_keys) \<and>
     map_of example_params ''emb_dim'' \<noteq> None \<and>
     map_of example_snapshot ''emb_dim'' = Some (PInt 640) \<and>
     ''emb_dim'' \<noteq> ''eval_only'' \<and> ''emb_dim'' \<noteq> ''reload_model'' \<and>
     ''emb_dim'' \<noteq> ''eval_size'' \<and> ''emb_dim'' \<noteq> ''reload_data''"
    by (simp add: identity_keys_def excluded_keys_def example_params_def example_snapshot_def)
  have o: "''eval_only'' \<notin> set (identity_keys @ excluded_keys) \<and>
     map_of example_params ''eval_only'' \<noteq> None \<and>
     map_of example_snapshot ''eval_only'' = Some (PBool False)"
    by (simp add: identity_keys_def excluded_keys_def example_params_def example_snapshot_def)
  have s: "''eval_size'' \<notin> set (identity_keys @ excluded_keys) \<and>
     map_of example_params ''eval_size'' \<noteq> None \<and>
     map_of example_snapshot ''eval_size'' = Some (PInt 5000)"
    by (simp add: identity_keys_def excluded_keys_def example_params_def example_snapshot_def)
  note t1 = t [THEN conjunct1, rule_format]
  note t2 = t [THEN conjunct2, THEN conjunct1, rule_format]
  note t5 = t [THEN conjunct2, THEN conjunct2, THEN conjunct2, THEN conjunct2, rule_format,
               OF example_reconcile]
  have m1: "map_of example_merged ''beam_size'' = map_of example_params ''beam_size''"
    using t1 [OF b] .
  have m2: "map_of example_merged ''emb_dim'' = Some (PInt 640)"
    using t2 [of "''emb_dim''" "PInt 640"] e by blast
  have m3: "map_of example_merged ''eval_only'' = Some (PBool False)"
    using t2 [of "''eval_only''" "PBool False"] o by blast
  have m4: "map_of example_merged ''eval_size'' = Some (PInt 5000)"
    using t2 [of "''eval_size''" "PInt 5000"] s by blast
  have o1: "map_of example_out ''beam_size'' = map_of example_params ''beam_size''"
    using t5 [THEN conjunct1, rule_format, OF b] .
  have o2: "map_of example_out ''emb_dim'' = Some (PInt 640)"
    using t5 [THEN conjunct2, rule_format, of "''emb_dim''" "PInt 640"] e by blast
  from m1 m2 m3 m4 o1 o2 show ?thesis
    using example_guard example_dir example_load example_merge example_reconcile by simp
qed

text \<open>
  Claim C4. When reconciliation is active and the merge succeeded, a successful
  reconciliation has evaluation-only mode on and the model-reload path equal to the
  experiment directory, \<^verbatim>\<open>/best-\<close>, the merged validation metric and \<^verbatim>\<open>.pth\<close>, and that
  path is a file; when that path is not a file, reconciliation stops with an assertion
  error.
\<close>

theorem reload_path_forced:
  assumes "from_exp_requested params = Inr True"
    and "getattr params ''eval_from_exp'' = Inr (PStr dir)"
    and "merge_snapshot fs (PStr dir) params = Inr merged"
  shows "(\<forall>out. reconcile fs params = Inr out \<longrightarrow>
            map_of out ''eval_only'' = Some (PBool True) \<and>
            (\<exists>vm. map_of merged ''validation_metrics'' = Some (PStr vm) \<and>
               map_of out ''reload_model'' = Some (PStr (dir @ ''/best-'' @ vm @ ''.pth'')) \<and>
               isfile fs (dir @ ''/best-'' @ vm @ ''.pth''))) \<and>
         (\<forall>vm. map_of merged ''validation_metrics'' = Some (PStr vm) \<and>
            \<not> isfile fs (dir @ ''/best-'' @ vm @ ''.pth'') \<longrightarrow>
            reconcile fs params = Inl AssertionError)"
proof (intro conjI allI impI)
  fix out assume r: "reconcile fs params = Inr out"
  from reconcile_Inr [OF assms(1,2) r] assms(3) obtain forced where
    f: "force_reload_model fs (PStr dir) merged = Inr forced"
    and u: "use_eval_data forced = Inr out"
    by auto
  from force_reload_model_Inr [OF f] obtain vm where
    vm: "map_of merged ''validation_metrics'' = Some (PStr vm)"
    and isf: "isfile fs (dir @ ''/best-'' @ vm @ ''.pth'')"
    and forced: "forced = setattr (setattr merged ''eval_only'' (PBool True)) ''reload_model''
                      (PStr (dir @ ''/best-'' @ vm @ ''.pth''))"
    by blast
  have eo: "map_of out ''eval_only'' = map_of forced ''eval_only''"
    by (rule use_other_keys [OF u]) simp_all
  have rm: "map_of out ''reload_model'' = map_of forced ''reload_model''"
    by (rule use_other_keys [OF u]) simp_all
  from eo forced show "map_of out ''eval_only'' = Some (PBool True)"
    by (simp add: map_of_setattr)
  from rm forced vm isf
  show "\<exists>vm. map_of merged ''validation_metrics'' = Some (PStr vm) \<and>
               map_of out ''reload_model'' = Some (PStr (dir @ ''/best-'' @ vm @ ''.pth'')) \<and>
               isfile fs (dir @ ''/best-'' @ vm @ ''.pth'')"
    by (simp add: map_of_setattr)
next
  fix vm
  assume a: "map_of merged ''validation_metrics'' = Some (PStr vm) \<and>
            \<not> isfile fs (dir @ ''/best-'' @ vm @ ''.pth'')"
  then have "force_reload_model fs (PStr dir) merged = Inl AssertionError"
    by (simp add: force_reload_model_eq)
  then show "reconcile fs params = Inl AssertionError"
    by (simp add: reconcile_active [OF assms(1,2)] assms(3) after_merge_def bind_Inr bind_Inl)
qed

lemma example_merge_no_model:
  "merge_snapshot example_fs_no_model (PStr ''/exp/run1'') example_params = Inr example_merged"
  by (simp add: merge_snapshot_def bind_Inr isfile_def pickle_load_def example_fs_no_model_def
      strip_identity_cases example_snapshot_def strip_excluded_def excluded_keys_def
      overlay_def example_params_def example_merged_def cong: bind_weak_cong)

text \<open>
  Scenario 2 of the spec: the path resolves to \<^verbatim>\<open>/exp/run1/best-acc.pth\<close>, and the same
  run fails when the experiment directory has no such file.
\<close>

theorem reload_path_forced_witness:
  "from_exp_requested example_params = Inr True \<and>
   getattr example_params ''eval_from_exp'' = Inr (PStr ''/exp/run1'') \<and>
   merge_snapshot example_fs (PStr ''/exp/run1'') example_params = Inr example_merged \<and>
   reconcile example_fs example_params = Inr example_out \<and>
   map_of example_out ''eval_only'' = Some (PBool True) \<and>
   map_of example_out ''reload_model'' = Some (PStr ''/exp/run1/best-acc.pth'') \<and>
   merge_snapshot example_fs_no_model (PStr ''/exp/run1'') example_params = Inr example_merged \<and>
   \<not> isfile example_fs_no_model ''/exp/run1/best-acc.pth'' \<and>
   reconcile example_fs_no_model example_params = Inl AssertionError"
proof -
  note t1 = reload_path_forced [OF example_guard example_dir example_merge]
  note t2 = reload_path_forced [OF example_guard example_dir example_merge_no_model]
  have vm: "map_of example_merged ''validation_metrics'' = Some (PStr ''acc'')"
    by (simp add: example_merged_def)
  have nf: "\<not> isfile example_fs_no_model (''/exp/run1'' @ ''/best-'' @ ''acc'' @ ''.pth'')"
    by (simp add: isfile_def example_fs_no_model_def)
  from t1 example_reconcile vm
  have a: "map_of example_out ''eval_only'' = Some (PBool True) \<and>
     map_of example_out ''reload_model'' = Some (PStr (''/exp/run1'' @ ''/best-'' @ ''acc'' @ ''.pth''))"
    by auto
  from t2 vm nf have b: "reconcile example_fs_no_model example_params = Inl AssertionError"
    by blast
  from a b nf show ?thesis
    using example_guard example_dir example_merge example_merge_no_model example_reconcile
    by simp
qed

lemma split_on_no_sep: "c \<notin> set xs \<Longrightarrow> split_on c xs = [xs]"
  by (induction xs) auto

lemma split_on_first: "c \<notin> set xs \<Longrightarrow> split_on c (xs @ c # ys) = xs # split_on c ys"
  by (induction xs) auto

lemma parse_two_paths:
  assumes "CHR '','' \<notin> set ts" "CHR '','' \<notin> set path"
    and "CHR '';'' \<notin> set ts" "CHR '';'' \<notin> set path"
  shows "parse_reload_data (ts @ '','' @ path @ '','' @ path) =
           [Some \<lparr>entry_task = ts, train_path = path, valid_path = path, test_paths = []\<rparr>]"
proof -
  let ?s = "ts @ '','' @ path @ '','' @ path"
  from assms(3,4) have "CHR '';'' \<notin> set ?s" by simp
  then have semi: "split_on CHR '';'' ?s = [?s]" by (rule split_on_no_sep)
  have "split_on CHR '','' ?s = ts # split_on CHR '','' (path @ '','' @ path)"
    using split_on_first [OF assms(1), of "path @ '','' @ path"] by simp
  also have "split_on CHR '','' (path @ '','' @ path) = path # split_on CHR '','' path"
    using split_on_first [OF assms(2), of path] by simp
  also have "split_on CHR '','' path = [path]"
    using assms(2) by (rule split_on_no_sep)
  finally have comma: "split_on CHR '','' ?s = [ts, path, path]" .
  have ne: "?s \<noteq> []" by simp
  show ?thesis
    unfolding parse_reload_data_def semi using ne
    by (simp add: parse_entry_def comma del: append_assoc append.simps)
qed

text \<open>
  Claim C5, as amended. When reconciliation is active and succeeds with an evaluation-data
  value other than the empty string, that value is a string, the evaluation sample cap is
  \<^verbatim>\<open>None\<close>, and the reload-data string is the merged task string, a comma, the path, a
  comma and the path again. When neither the task string nor the path contains a comma or
  a semicolon, that string, read in the format of the help text of \<^verbatim>\<open>--reload_data\<close>
  (line 85), is a single entry for the task whose train path and valid path are the
  supplied path and whose list of test paths is empty.
\<close>

theorem eval_data_rewrites_reload_data:
  assumes "from_exp_requested params = Inr True"
    and "getattr params ''eval_from_exp'' = Inr (PStr dir)"
    and "reconcile fs params = Inr out"
    and "map_of params ''eval_data'' = Some ed"
    and "ed \<noteq> PStr ''''"
  shows "\<exists>path ts. ed = PStr path \<and> map_of out ''tasks'' = Some (PStr ts) \<and>
           map_of out ''eval_size'' = Some PNone \<and>
           map_of out ''reload_data'' = Some (PStr (ts @ '','' @ path @ '','' @ path)) \<and>
           (CHR '','' \<notin> set ts \<union> set path \<and> CHR '';'' \<notin> set ts \<union> set path \<longrightarrow>
              parse_reload_data (ts @ '','' @ path @ '','' @ path) =
                [Some \<lparr>entry_task = ts, train_path = path, valid_path = path,
                        test_paths = []\<rparr>])"
proof -
  from reconcile_Inr [OF assms(1,2,3)] obtain merged forced where
    m: "merge_snapshot fs (PStr dir) params = Inr merged"
    and f: "force_reload_model fs (PStr dir) merged = Inr forced"
    and u: "use_eval_data forced = Inr out"
    by blast
  from merge_snapshot_Inr [OF m] obtain pk where
    pk: "pickle_load fs (dir @ ''/params.pkl'') = Inr pk" by blast
  have "''eval_data'' \<in> set (identity_keys @ excluded_keys)"
    by (simp add: excluded_keys_def)
  then have "map_of merged ''eval_data'' = Some ed"
    using map_of_merged [OF m pk, of "''eval_data''"] assms(4) by simp
  moreover have "map_of forced ''eval_data'' = map_of merged ''eval_data''"
    by (rule force_other_keys [OF f]) simp_all
  ultimately have fed: "map_of forced ''eval_data'' = Some ed" by simp
  from use_eval_data_Inr [OF u] fed assms(5) obtain ts path where
    ts: "map_of forced ''tasks'' = Some (PStr ts)" and ed: "ed = PStr path"
    and out: "out = setattr (setattr forced ''eval_size'' PNone) ''reload_data''
                      (PStr (ts @ '','' @ path @ '','' @ path))"
    by auto
  have "map_of out ''tasks'' = Some (PStr ts)"
    unfolding out using ts by (simp add: map_of_setattr)
  moreover have "map_of out ''eval_size'' = Some PNone"
    unfolding out by (simp add: map_of_setattr)
  moreover have "map_of out ''reload_data'' = Some (PStr (ts @ '','' @ path @ '','' @ path))"
    unfolding out by (simp add: map_of_setattr)
  moreover have "CHR '','' \<notin> set ts \<union> set path \<and> CHR '';'' \<notin> set ts \<union> set path \<longrightarrow>
              parse_reload_data (ts @ '','' @ path @ '','' @ path) =
                [Some \<lparr>entry_task = ts, train_path = path, valid_path = path,
                        test_paths = []\<rparr>]"
    using parse_two_paths [of ts path] by simp
  ultimately show ?thesis using ed by blast
qed

text \<open>Scenario 3 of the spec on the example run.\<close>

theorem eval_data_rewrites_reload_data_witness:
  "from_exp_requested example_params = Inr True \<and>
   getattr example_params ''eval_from_exp'' = Inr (PStr ''/exp/run1'') \<and>
   reconcile example_fs example_params = Inr example_out \<and>
   map_of example_params ''eval_data'' = Some (PStr ''/data/eval'') \<and>
   PStr ''/data/eval'' \<noteq> PStr '''' \<and>
   map_of example_out ''eval_size'' = Some PNone \<and>
   map_of example_out ''reload_data'' = Some (PStr ''ode_lyapunov,/data/eval,/data/eval'')"
proof -
  have ed: "map_of example_params ''eval_data'' = Some (PStr ''/data/eval'')"
    by (simp add: example_params_def)
  have ne: "PStr ''/data/eval'' \<noteq> PStr ''''" by simp
  have ts: "map_of example_out ''tasks'' = Some (PStr ''ode_lyapunov'')"
    by (simp add: example_out_def)
  from eval_data_rewrites_reload_data [OF example_guard example_dir example_reconcile ed ne] ts
  have "map_of example_out ''eval_size'' = Some PNone \<and>
        map_of example_out ''reload_data'' =
          Some (PStr (''ode_lyapunov'' @ '','' @ ''/data/eval'' @ '','' @ ''/data/eval''))"
    by auto
  then show ?thesis
    using example_guard example_dir example_reconcile ed by simp
qed

text \<open>
  Claim C5 as stated fails for the test split. The string written for the example run has
  three comma-separated fields, the task and the path twice; in the format of line 85 the
  entry has the supplied path as train and valid path and an empty list of test paths.
\<close>

theorem no_test_path_counterexample:
  "reconcile example_fs example_params = Inr example_out \<and>
   map_of example_params ''eval_data'' = Some (PStr ''/data/eval'') \<and>
   map_of example_out ''reload_data'' = Some (PStr ''ode_lyapunov,/data/eval,/data/eval'') \<and>
   split_on CHR '','' ''ode_lyapunov,/data/eval,/data/eval'' =
     [''ode_lyapunov'', ''/data/eval'', ''/data/eval''] \<and>
   parse_reload_data ''ode_lyapunov,/data/eval,/data/eval'' =
     [Some \<lparr>entry_task = ''ode_lyapunov'', train_path = ''/data/eval'',
             valid_path = ''/data/eval'', test_paths = []\<rparr>]"
proof -
  have "parse_reload_data (''ode_lyapunov'' @ '','' @ ''/data/eval'' @ '','' @ ''/data/eval'') =
     [Some \<lparr>entry_task = ''ode_lyapunov'', train_path = ''/data/eval'',
             valid_path = ''/data/eval'', test_paths = []\<rparr>]"
    by (rule parse_two_paths) simp_all
  moreover have "split_on CHR '','' ''ode_lyapunov,/data/eval,/data/eval'' =
     [''ode_lyapunov'', ''/data/eval'', ''/data/eval'']"
    by simp
  ultimately show ?thesis
    using example_reconcile by (simp add: example_params_def example_out_def)
qed

text \<open>
  Claim C9. With reconciliation active and the snapshot loaded: reconciliation succeeds only
  if the snapshot has all three identity fields; a snapshot that lacks one makes the merge,
  and so reconciliation, stop with a key error for a missing identity field, and nothing is
  merged; a snapshot that has the three makes the merge succeed whichever fields of the
  per-run exclusion set it has or lacks.
\<close>

theorem identity_fields_required:
  assumes "from_exp_requested params = Inr True"
    and "getattr params ''eval_from_exp'' = Inr (PStr dir)"
    and "pickle_load fs (dir @ ''/params.pkl'') = Inr snapshot"
  shows "((\<exists>out. reconcile fs params = Inr out) \<longrightarrow>
            (\<forall>k \<in> set identity_keys. map_of snapshot k \<noteq> None)) \<and>
         ((\<exists>k \<in> set identity_keys. map_of snapshot k = None) \<longrightarrow>
            (\<exists>k \<in> set identity_keys. map_of snapshot k = None \<and>
               merge_snapshot fs (PStr dir) params = Inl (KeyError k) \<and>
               reconcile fs params = Inl (KeyError k))) \<and>
         ((\<forall>k \<in> set identity_keys. map_of snapshot k \<noteq> None) \<longrightarrow>
            (\<exists>d. strip_identity snapshot = Inr d \<and>
               merge_snapshot fs (PStr dir) params = Inr (overlay (strip_excluded d) params)))"
proof -
  from assms(3) have isf: "isfile fs (dir @ ''/params.pkl'')"
    by (auto simp: pickle_load_def isfile_def split: option.splits)
  have ms: "merge_snapshot fs (PStr dir) params =
          bind (strip_identity snapshot) (\<lambda>d. Inr (overlay (strip_excluded d) params))"
    by (simp add: merge_snapshot_def bind_Inr isf assms(3))
  have rc: "reconcile fs params = bind (merge_snapshot fs (PStr dir) params) (after_merge fs (PStr dir))"
    by (rule reconcile_active [OF assms(1,2)])
  have a: "\<forall>k \<in> set identity_keys. map_of snapshot k \<noteq> None"
    if "reconcile fs params = Inr out" for out
  proof -
    from reconcile_Inr [OF assms(1,2) that] obtain merged where
      "merge_snapshot fs (PStr dir) params = Inr merged" by blast
    from merge_snapshot_Inr [OF this] assms(3) obtain d where "strip_identity snapshot = Inr d"
      by auto
    then show ?thesis
      by (auto simp: strip_identity_cases identity_keys_def split: if_splits)
  qed
  have b: "\<exists>k \<in> set identity_keys. map_of snapshot k = None \<and>
               merge_snapshot fs (PStr dir) params = Inl (KeyError k) \<and>
               reconcile fs params = Inl (KeyError k)"
    if "\<exists>k \<in> set identity_keys. map_of snapshot k = None"
  proof -
    from that have "\<exists>k \<in> set identity_keys. map_of snapshot k = None \<and>
        strip_identity snapshot = Inl (KeyError k)"
      by (auto simp: strip_identity_cases identity_keys_def)
    then show ?thesis
      unfolding rc ms by (auto simp: bind_Inl)
  qed
  have c: "\<exists>d. strip_identity snapshot = Inr d \<and>
               merge_snapshot fs (PStr dir) params = Inr (overlay (strip_excluded d) params)"
    if "\<forall>k \<in> set identity_keys. map_of snapshot k \<noteq> None"
    using that unfolding ms by (simp add: strip_identity_cases identity_keys_def bind_Inr)
  from a b c show ?thesis by blast
qed

lemma example_load_no_name:
  "pickle_load example_fs_no_name (''/exp/run1'' @ ''/params.pkl'') =
     Inr (AList.delete ''exp_name'' example_snapshot)"
  by (simp add: pickle_load_def example_fs_no_name_def)

text \<open>
  A snapshot without \<^verbatim>\<open>exp_name\<close> raises the key error; the full snapshot, which has no
  \<^verbatim>\<open>lyap_SOS_checker\<close> field, merges.
\<close>

theorem identity_fields_required_witness:
  "from_exp_requested example_params = Inr True \<and>
   getattr example_params ''eval_from_exp'' = Inr (PStr ''/exp/run1'') \<and>
   pickle_load example_fs_no_name (''/exp/run1'' @ ''/params.pkl'') =
     Inr (AList.delete ''exp_name'' example_snapshot) \<and>
   map_of (AList.delete ''exp_name'' example_snapshot) ''exp_name'' = None \<and>
   reconcile example_fs_no_name example_params = Inl (KeyError ''exp_name'') \<and>
   pickle_load example_fs (''/exp/run1'' @ ''/params.pkl'') = Inr example_snapshot \<and>
   map_of example_snapshot ''lyap_SOS_checker'' = None \<and>
   (\<exists>merged. merge_snapshot example_fs (PStr ''/exp/run1'') example_params = Inr merged)"
proof -
  note t1 = identity_fields_required [OF example_guard example_dir example_load_no_name]
  note t2 = identity_fields_required [OF example_guard example_dir example_load]
  have present: "map_of (AList.delete ''exp_name'' example_snapshot) ''exp_id'' \<noteq> None \<and>
     map_of (AList.delete ''exp_name'' example_snapshot) ''dump_path'' \<noteq> None \<and>
     map_of (AList.delete ''exp_name'' example_snapshot) ''exp_name'' = None"
    by (simp add: example_snapshot_def)
  then have "\<exists>k \<in> set identity_keys. map_of (AList.delete ''exp_name'' example_snapshot) k = None"
    by (simp add: identity_keys_def)
  with t1 obtain k where k: "k \<in> set identity_keys"
    "map_of (AList.delete ''exp_name'' example_snapshot) k = None"
    "reconcile example_fs_no_name example_params = Inl (KeyError k)"
    by blast
  from k(1,2) present have "k = ''exp_name''"
    by (auto simp: identity_keys_def)
  with k(3) have r1: "reconcile example_fs_no_name example_params = Inl (KeyError ''exp_name'')"
    by simp
  have all: "\<forall>k \<in> set identity_keys. map_of example_snapshot k \<noteq> None"
    by (simp add: identity_keys_def example_snapshot_def)
  with t2 have r2: "\<exists>merged. merge_snapshot example_fs (PStr ''/exp/run1'') example_params = Inr merged"
    by blast
  have absent: "map_of example_snapshot ''lyap_SOS_checker'' = None"
    by (simp add: example_snapshot_def)
  from r1 r2 present absent show ?thesis
    using example_guard example_dir example_load_no_name example_load by simp
qed

section \<open>Facts about the orchestrator\<close>

lemma shuffle_mset: "i < length xs \<Longrightarrow> mset (fst (shuffle draw i xs g)) = mset xs"
proof (induction i arbitrary: xs g)
  case 0
  then show ?case by simp
next
  case (Suc i)
  obtain r g' where d: "draw g = (r, g')" by (cases "draw g")
  let ?j = "r mod Suc (Suc i)"
  let ?ys = "xs[Suc i := xs ! ?j, ?j := xs ! Suc i]"
  have j: "?j < length xs" using Suc.prems
    by (meson Suc_leI less_le_trans mod_less_divisor zero_less_Suc)
  have "mset ?ys = mset xs" using Suc.prems j by (simp add: mset_swap)
  moreover have "mset (fst (shuffle draw i ?ys g')) = mset ?ys"
    using Suc.prems by (intro Suc.IH) simp
  ultimately show ?case by (simp add: d Let_def)
qed

lemma permutation_mset: "mset (fst (permutation draw n g)) = mset [0..<n]"
proof (cases n)
  case 0
  then show ?thesis by (simp add: permutation_def)
next
  case (Suc m)
  then show ?thesis unfolding permutation_def by (intro shuffle_mset) simp
qed

lemma order_mset:
  assumes "mset ids = mset [0..<length xs]"
  shows "mset (map ((!) xs) ids) = mset xs"
proof -
  have "mset (map ((!) xs) ids) = image_mset ((!) xs) (mset ids)" by simp
  also have "\<dots> = image_mset ((!) xs) (mset [0..<length xs])" by (simp only: assms)
  also have "\<dots> = mset (map ((!) xs) [0..<length xs])" by simp
  also have "\<dots> = mset xs" by (simp only: map_nth)
  finally show ?thesis .
qed

lemma out_trace_simps:
  "out_trace (Inl (s, tr)) = tr" "out_trace (Inr w) = trace w"
  by (simp_all add: out_trace_def)

lemma call_trainer_Inr:
  assumes "call_trainer ev f w = Inr w'"
  shows "\<exists>t. f (the_trainer w) = Inr t \<and> the_trainer w' = t \<and> rng w' = rng w \<and>
           trace w' = trace w @ [ev]"
  using assms by (auto simp: call_trainer_def split: sum.splits)

lemma call_trainer_trace: "out_trace (call_trainer ev f w) = trace w @ [ev]"
  by (simp add: call_trainer_def out_trace_def split: sum.splits)

lemma task_step_Inr:
  assumes "task_step X p i w = Inr w'"
  shows "i < length (tasks p) \<and> rng w' = rng w \<and>
         trace w' = trace w @ [work_event p (tasks p ! i), Iter]"
proof -
  from assms have i: "i < length (tasks p)"
    by (auto simp: task_step_def split: if_splits)
  let ?task = "tasks p ! i"
  from assms i obtain w1 where
    w1: "(if export_data p
           then call_trainer (ExportData ?task) (trainer_export_data X ?task) w
           else call_trainer (EncDecStep ?task) (trainer_enc_dec_step X ?task) w) = Inr w1"
    and w': "call_trainer Iter (trainer_iter X) w1 = Inr w'"
    by (auto simp: task_step_def Let_def split: sum.splits)
  from w1 have "rng w1 = rng w \<and> trace w1 = trace w @ [work_event p ?task]"
    by (auto simp: work_event_def dest: call_trainer_Inr split: if_splits)
  with call_trainer_Inr [OF w'] i show ?thesis by auto
qed

lemma task_steps_Inr:
  assumes "task_steps X p ids w = Inr w'"
  shows "(\<forall>i \<in> set ids. i < length (tasks p)) \<and> rng w' = rng w \<and>
         trace w' = trace w @ concat (map (\<lambda>i. [work_event p (tasks p ! i), Iter]) ids)"
  using assms
proof (induction ids arbitrary: w)
  case Nil
  then show ?case by simp
next
  case (Cons i ids)
  from Cons.prems obtain w1 where s: "task_step X p i w = Inr w1"
    and r: "task_steps X p ids w1 = Inr w'"
    by (auto split: sum.splits)
  from task_step_Inr [OF s] Cons.IH [OF r] show ?case by auto
qed

lemma inner_step_Inr:
  assumes "inner_step X p w = Inr w'"
  shows "trace w' = trace w @ step_calls p (fst (permutation (next_draw X) (length (tasks p)) (rng w))) \<and>
         rng w' = snd (permutation (next_draw X) (length (tasks p)) (rng w))"
proof -
  obtain ids g' where pg: "permutation (next_draw X) (length (tasks p)) (rng w) = (ids, g')"
    by (cases "permutation (next_draw X) (length (tasks p)) (rng w)")
  from assms pg have "task_steps X p ids (record_call (Permutation ids) (w\<lparr>rng := g'\<rparr>)) = Inr w'"
    by (simp add: inner_step_def)
  from task_steps_Inr [OF this] pg show ?thesis
    by (simp add: record_call_def step_calls_def)
qed

lemma while_steps_exit_aux:
  assumes "while_steps X p w = Some r"
  shows "\<forall>w'. r = Inr w' \<longrightarrow> \<not> n_equations (the_trainer w') < epoch_size (the_trainer w')"
proof (rule while_steps.raw_induct
    [where P = "\<lambda>X p w r. \<forall>w'. r = Inr w' \<longrightarrow>
                   \<not> n_equations (the_trainer w') < epoch_size (the_trainer w')",
      OF _ assms], goal_cases)
  case (1 f X p w r)
  then show ?case
    by (auto split: if_splits sum.splits)
qed

lemma while_steps_exit:
  assumes "while_steps X p w = Some (Inr w')"
  shows "\<not> n_equations (the_trainer w') < epoch_size (the_trainer w')"
  using while_steps_exit_aux [OF assms] by simp

lemma while_steps_trace_aux:
  assumes "while_steps X p w = Some r"
  shows "\<forall>w'. r = Inr w' \<longrightarrow>
           (\<exists>idss. (\<forall>ids \<in> set idss. mset ids = mset [0..<length (tasks p)]) \<and>
              trace w' = trace w @ concat (map (step_calls p) idss))"
proof (rule while_steps.raw_induct
    [where P = "\<lambda>X p w r. \<forall>w'. r = Inr w' \<longrightarrow>
           (\<exists>idss. (\<forall>ids \<in> set idss. mset ids = mset [0..<length (tasks p)]) \<and>
              trace w' = trace w @ concat (map (step_calls p) idss))",
      OF _ assms], goal_cases)
  case (1 f X p w r)
  show ?case
  proof (intro allI impI)
    fix w' assume r: "r = Inr w'"
    show "\<exists>idss. (\<forall>ids \<in> set idss. mset ids = mset [0..<length (tasks p)]) \<and>
              trace w' = trace w @ concat (map (step_calls p) idss)"
    proof (cases "n_equations (the_trainer w) < epoch_size (the_trainer w)")
      case False
      with 1(2) r have "w' = w" by simp
      then have "(\<forall>ids \<in> set []. mset ids = mset [0..<length (tasks p)]) \<and>
             trace w' = trace w @ concat (map (step_calls p) [])" by simp
      then show ?thesis by blast
    next
      case True
      with 1(2) r obtain w1 where s: "inner_step X p w = Inr w1"
        and l: "f X p w1 = Some (Inr w')"
        by (auto split: sum.splits)
      let ?ids = "fst (permutation (next_draw X) (length (tasks p)) (rng w))"
      from inner_step_Inr [OF s] have t1: "trace w1 = trace w @ step_calls p ?ids" by simp
      from 1(1) [OF l] obtain idss where
        a: "\<forall>ids \<in> set idss. mset ids = mset [0..<length (tasks p)]"
        and t2: "trace w' = trace w1 @ concat (map (step_calls p) idss)"
        by blast
      have "(\<forall>ids \<in> set (?ids # idss). mset ids = mset [0..<length (tasks p)]) \<and>
             trace w' = trace w @ concat (map (step_calls p) (?ids # idss))"
        using a t1 t2 by (simp add: permutation_mset)
      then show ?thesis by blast
    qed
  qed
qed

lemma while_steps_trace:
  assumes "while_steps X p w = Some (Inr w')"
  shows "\<exists>idss. (\<forall>ids \<in> set idss. mset ids = mset [0..<length (tasks p)]) \<and>
           trace w' = trace w @ concat (map (step_calls p) idss)"
  using while_steps_trace_aux [OF assms] by simp

lemma task_step_filter:
  assumes "\<And>e. loop_call e \<Longrightarrow> \<not> P e"
  shows "filter P (out_trace (task_step X p i w)) = filter P (trace w)"
proof (cases "i < length (tasks p)")
  case False
  then show ?thesis by (simp add: task_step_def out_trace_def)
next
  case True
  let ?task = "tasks p ! i"
  let ?work = "if export_data p
           then call_trainer (ExportData ?task) (trainer_export_data X ?task) w
           else call_trainer (EncDecStep ?task) (trainer_enc_dec_step X ?task) w"
  have wt: "out_trace ?work = trace w @ [work_event p ?task]"
    by (simp add: call_trainer_trace work_event_def)
  have np: "\<not> P (work_event p ?task)" "\<not> P Iter"
    using assms by (simp_all add: work_event_def)
  show ?thesis
  proof (cases ?work)
    case (Inl s)
    with True have "task_step X p i w = Inl s" by (simp add: task_step_def Let_def)
    with wt Inl np show ?thesis by simp
  next
    case (Inr w1)
    with True have "task_step X p i w = call_trainer Iter (trainer_iter X) w1"
      by (simp add: task_step_def Let_def)
    moreover from wt Inr have "trace w1 = trace w @ [work_event p ?task]"
      by (simp add: out_trace_def)
    ultimately show ?thesis using np by (simp add: call_trainer_trace)
  qed
qed

lemma task_steps_filter:
  assumes "\<And>e. loop_call e \<Longrightarrow> \<not> P e"
  shows "filter P (out_trace (task_steps X p ids w)) = filter P (trace w)"
proof (induction ids arbitrary: w)
  case Nil
  then show ?case by (simp add: out_trace_def)
next
  case (Cons i ids)
  show ?case
  proof (cases "task_step X p i w")
    case (Inl s)
    with task_step_filter [of P X p i w, OF assms] show ?thesis by simp
  next
    case (Inr w1)
    with task_step_filter [of P X p i w, OF assms]
    have "filter P (trace w1) = filter P (trace w)" by (simp add: out_trace_def)
    with Cons.IH [of w1] Inr show ?thesis by simp
  qed
qed

lemma inner_step_filter:
  assumes "\<And>e. loop_call e \<Longrightarrow> \<not> P e"
  shows "filter P (out_trace (inner_step X p w)) = filter P (trace w)"
proof -
  obtain ids g' where pg: "permutation (next_draw X) (length (tasks p)) (rng w) = (ids, g')"
    by (cases "permutation (next_draw X) (length (tasks p)) (rng w)")
  have "\<not> P (Permutation ids)" using assms by simp
  then show ?thesis
    using task_steps_filter [of P X p ids "record_call (Permutation ids) (w\<lparr>rng := g'\<rparr>)", OF assms]
    by (simp add: inner_step_def pg record_call_def)
qed

lemma while_steps_filter:
  assumes "while_steps X p w = Some r" and "\<And>e. loop_call e \<Longrightarrow> \<not> P e"
  shows "filter P (out_trace r) = filter P (trace w)"
proof (rule while_steps.raw_induct
    [where P = "\<lambda>X p w r. filter P (out_trace r) = filter P (trace w)", OF _ assms(1)],
    goal_cases)
  case (1 f X p w r)
  show ?case
  proof (cases "n_equations (the_trainer w) < epoch_size (the_trainer w)")
    case False
    with 1(2) have "r = Inr w" by simp
    then show ?thesis by (simp add: out_trace_def)
  next
    case True
    note step = inner_step_filter [of P X p w, OF assms(2)]
    show ?thesis
    proof (cases "inner_step X p w")
      case (Inl s)
      with 1(2) True have "r = Inl s" by simp
      with step Inl show ?thesis by simp
    next
      case (Inr w1)
      with 1(2) True have "f X p w1 = Some r" by simp
      from 1(1) [OF this] step Inr show ?thesis by (simp add: out_trace_def)
    qed
  qed
qed

lemma log_metrics_plain:
  "list_all (\<lambda>(k, v). formats v) sc \<Longrightarrow> log_metrics sc = (metric_lines sc, None)"
  by (induction sc) (auto simp: metric_lines_def)

lemma log_metrics_prefix: "prefix (fst (log_metrics sc)) (metric_lines sc)"
  by (induction sc) (auto simp: metric_lines_def case_prod_beta)

lemma log_metrics_error:
  "snd (log_metrics sc) =
     (if list_all (\<lambda>(k, v). formats v) sc then None else Some TypeError)"
  by (induction sc) (auto simp: case_prod_beta)

lemma plain_scores_conv:
  "plain_scores sc \<longleftrightarrow>
     list_all (\<lambda>(k, v). formats v) sc \<and> list_all (\<lambda>(k, v). serialises v) sc"
  by (induction sc) (auto simp: plain_scores_def)

lemma log_scores_plain:
  "plain_scores sc \<Longrightarrow> log_scores sc = (metric_lines sc @ [LogInfo (JsonLine sc)], None)"
  by (simp add: log_scores_def plain_scores_conv log_metrics_plain)

lemma log_scores_not_plain:
  assumes "\<not> plain_scores sc"
  shows "\<exists>lines. log_scores sc = (lines, Some TypeError) \<and> prefix lines (metric_lines sc)"
proof -
  obtain lines e where l: "log_metrics sc = (lines, e)" by (cases "log_metrics sc")
  from log_metrics_prefix [of sc] l have p: "prefix lines (metric_lines sc)" by simp
  from log_metrics_error [of sc] l
  have e: "e = (if list_all (\<lambda>(k, v). formats v) sc then None else Some TypeError)" by simp
  show ?thesis
  proof (cases "list_all (\<lambda>(k, v). formats v) sc")
    case True
    with assms have "\<not> list_all (\<lambda>(k, v). serialises v) sc"
      by (simp add: plain_scores_conv)
    with True l e p show ?thesis by (simp add: log_scores_def)
  next
    case False
    with l e p show ?thesis by (simp add: log_scores_def)
  qed
qed

lemma metric_lines_filter:
  assumes "\<And>k v. \<not> P (LogInfo (MetricLine k v))"
  shows "filter P (metric_lines sc) = []"
  using assms by (auto simp: metric_lines_def filter_empty_conv)

lemma prefix_filter_empty: "prefix xs ys \<Longrightarrow> filter P ys = [] \<Longrightarrow> filter P xs = []"
  by (auto simp: prefix_def)

lemma end_of_epoch_raises:
  "run_all_evals X (the_trainer w) = Inl s \<Longrightarrow>
     end_of_epoch X w = Inl (s, trace w @ [RunAllEvals])"
  by (simp add: end_of_epoch_def)

lemma end_of_epoch_not_plain:
  assumes "run_all_evals X (the_trainer w) = Inr (sc, t1)" and "\<not> plain_scores sc"
  shows "\<exists>lines. end_of_epoch X w =
             Inl (Raised TypeError, trace w @ [RunAllEvals, LogInfo (ScoresLine sc)] @ lines) \<and>
           prefix lines (metric_lines sc)"
  using log_scores_not_plain [OF assms(2)] assms(1) by (auto simp: end_of_epoch_def)

lemma end_of_epoch_plain:
  assumes "run_all_evals X (the_trainer w) = Inr (sc, t1)" and "plain_scores sc"
  shows "end_of_epoch X w =
     (case trainer_save_best_model X sc t1 of
        Inl s \<Rightarrow> Inl (s, trace w @ evaluation_calls sc @ [SaveBestModel sc])
      | Inr t2 \<Rightarrow>
          (case trainer_save_periodic X t2 of
             Inl s \<Rightarrow> Inl (s, trace w @ evaluation_calls sc @ [SaveBestModel sc, SavePeriodic])
           | Inr t3 \<Rightarrow>
               (case trainer_end_epoch X sc t3 of
                  Inl s \<Rightarrow> Inl (s, trace w @ evaluation_calls sc @ boundary_updates sc)
                | Inr t4 \<Rightarrow>
                    Inr (w\<lparr>the_trainer := t4,
                           trace := trace w @ evaluation_calls sc @ boundary_updates sc\<rparr>))))"
  by (simp add: end_of_epoch_def log_scores_plain [OF assms(2)] assms(1) call_trainer_def
      Let_def evaluation_calls_def boundary_updates_def split: sum.splits)

lemma end_of_epoch_Inr:
  assumes "end_of_epoch X w = Inr w'"
  shows "\<exists>sc t1 t2 t3. run_all_evals X (the_trainer w) = Inr (sc, t1) \<and> plain_scores sc \<and>
           trainer_save_best_model X sc t1 = Inr t2 \<and>
           trainer_save_periodic X t2 = Inr t3 \<and>
           trainer_end_epoch X sc t3 = Inr (the_trainer w') \<and>
           w' = w\<lparr>the_trainer := the_trainer w',
                   trace := trace w @ evaluation_calls sc @ boundary_updates sc\<rparr>"
proof (cases "run_all_evals X (the_trainer w)")
  case (Inl s)
  with assms show ?thesis by (simp add: end_of_epoch_raises)
next
  case (Inr a)
  obtain sc t1 where a: "a = (sc, t1)" by (cases a)
  note r = Inr [unfolded a]
  show ?thesis
  proof (cases "plain_scores sc")
    case False
    from end_of_epoch_not_plain [OF r False] assms show ?thesis by auto
  next
    case True
    from assms [unfolded end_of_epoch_plain [OF r True]] r True show ?thesis
      by (auto split: sum.splits)
  qed
qed

lemma end_of_epoch_start:
  "filter starts_epoch (out_trace (end_of_epoch X w)) = filter starts_epoch (trace w)"
proof (cases "run_all_evals X (the_trainer w)")
  case (Inl s)
  then show ?thesis by (simp add: end_of_epoch_raises out_trace_def)
next
  case (Inr a)
  obtain sc t1 where a: "a = (sc, t1)" by (cases a)
  note r = Inr [unfolded a]
  have ml: "filter starts_epoch (metric_lines sc) = []"
    by (rule metric_lines_filter) simp
  show ?thesis
  proof (cases "plain_scores sc")
    case True
    show ?thesis unfolding end_of_epoch_plain [OF r True]
      by (simp add: out_trace_def ml evaluation_calls_def boundary_updates_def split: sum.splits)
  next
    case False
    from end_of_epoch_not_plain [OF r False] obtain lines where
      e: "end_of_epoch X w =
            Inl (Raised TypeError, trace w @ [RunAllEvals, LogInfo (ScoresLine sc)] @ lines)"
      and p: "prefix lines (metric_lines sc)"
      by blast
    from prefix_filter_empty [OF p ml] e show ?thesis by (simp add: out_trace_def)
  qed
qed

lemma end_of_epoch_master:
  "\<exists>sc rest. filter master_only (out_trace (end_of_epoch X w)) = filter master_only (trace w) @ rest \<and>
     prefix rest (boundary_calls sc) \<and>
     (\<forall>w'. end_of_epoch X w = Inr w' \<longrightarrow> rest = boundary_calls sc)"
proof (cases "run_all_evals X (the_trainer w)")
  case (Inl s)
  then have "filter master_only (out_trace (end_of_epoch X w)) =
               filter master_only (trace w) @ [RunAllEvals] \<and>
             prefix [RunAllEvals] (boundary_calls []) \<and>
             (\<forall>w'. end_of_epoch X w = Inr w' \<longrightarrow> [RunAllEvals] = boundary_calls [])"
    by (simp add: end_of_epoch_def out_trace_def boundary_calls_def)
  then show ?thesis by blast
next
  case (Inr a)
  obtain sc t1 where a: "a = (sc, t1)" by (cases a)
  note r = Inr [unfolded a]
  have ml: "filter master_only (metric_lines sc) = []"
    by (rule metric_lines_filter) simp
  have "\<exists>rest. filter master_only (out_trace (end_of_epoch X w)) =
                 filter master_only (trace w) @ rest \<and>
               prefix rest (boundary_calls sc) \<and>
               (\<forall>w'. end_of_epoch X w = Inr w' \<longrightarrow> rest = boundary_calls sc)"
  proof (cases "plain_scores sc")
    case True
    show ?thesis unfolding end_of_epoch_plain [OF r True]
      by (auto simp: out_trace_def ml evaluation_calls_def boundary_updates_def
          boundary_calls_def split: sum.splits)
  next
    case False
    from end_of_epoch_not_plain [OF r False] obtain lines where
      e: "end_of_epoch X w =
            Inl (Raised TypeError, trace w @ [RunAllEvals, LogInfo (ScoresLine sc)] @ lines)"
      and p: "prefix lines (metric_lines sc)"
      by blast
    from prefix_filter_empty [OF p ml] e
    have "filter master_only (out_trace (end_of_epoch X w)) =
            filter master_only (trace w) @ [RunAllEvals] \<and>
          prefix [RunAllEvals] (boundary_calls sc) \<and>
          (\<forall>w'. end_of_epoch X w = Inr w' \<longrightarrow> [RunAllEvals] = boundary_calls sc)"
      by (simp add: out_trace_def boundary_calls_def)
    then show ?thesis by blast
  qed
  then show ?thesis by blast
qed

lemma start_epoch_simps:
  "trace (start_epoch w) = trace w @ [LogInfo (StartingEpoch (epoch (the_trainer w)))]"
  "n_equations (the_trainer (start_epoch w)) = 0"
  "epoch_size (the_trainer (start_epoch w)) = epoch_size (the_trainer w)"
  "rng (start_epoch w) = rng w"
  by (simp_all add: start_epoch_def record_call_def)

lemma one_epoch_cases:
  assumes "one_epoch X p w = Some r"
  shows "(\<exists>s. while_steps X p (start_epoch w) = Some (Inl s) \<and> r = Inl s) \<or>
         (\<exists>w'. while_steps X p (start_epoch w) = Some (Inr w') \<and> r = finish_epoch X p w')"
  using assms by (auto simp: one_epoch_def split: option.splits sum.splits)

lemma finish_epoch_start:
  "filter starts_epoch (out_trace (finish_epoch X p w)) = filter starts_epoch (trace w)"
proof (cases "is_master p")
  case True
  then show ?thesis
    by (simp add: finish_epoch_def Let_def end_of_epoch_start record_call_def)
next
  case False
  then show ?thesis
    by (simp add: finish_epoch_def Let_def record_call_def out_trace_def)
qed

lemma finish_epoch_other:
  "\<not> is_master p \<Longrightarrow>
     filter master_only (out_trace (finish_epoch X p w)) = filter master_only (trace w)"
  by (simp add: finish_epoch_def Let_def record_call_def out_trace_def)

lemma finish_epoch_master:
  assumes "is_master p"
  shows "\<exists>sc rest. filter master_only (out_trace (finish_epoch X p w)) =
                       filter master_only (trace w) @ rest \<and>
           prefix rest (boundary_calls sc) \<and>
           (\<forall>w'. finish_epoch X p w = Inr w' \<longrightarrow> rest = boundary_calls sc)"
proof -
  let ?w1 = "record_call (LogInfo (EndOfEpoch (epoch (the_trainer w)))) w"
  have f: "finish_epoch X p w = end_of_epoch X ?w1"
    using assms by (simp add: finish_epoch_def Let_def)
  have t: "filter master_only (trace ?w1) = filter master_only (trace w)"
    by (simp add: record_call_def)
  from end_of_epoch_master [of X ?w1] show ?thesis unfolding f t .
qed

lemma one_epoch_start:
  assumes "one_epoch X p w = Some r"
  shows "filter starts_epoch (out_trace r) =
           filter starts_epoch (trace w) @ [LogInfo (StartingEpoch (epoch (the_trainer w)))]"
proof -
  have ns: "\<And>e. loop_call e \<Longrightarrow> \<not> starts_epoch e"
    by (erule loop_call.elims) simp_all
  from one_epoch_cases [OF assms] show ?thesis
  proof (elim disjE exE conjE)
    fix s assume l: "while_steps X p (start_epoch w) = Some (Inl s)" and r: "r = Inl s"
    from while_steps_filter [OF l ns] r show ?thesis by (simp add: start_epoch_simps)
  next
    fix w' assume l: "while_steps X p (start_epoch w) = Some (Inr w')"
      and r: "r = finish_epoch X p w'"
    from while_steps_filter [OF l ns] r show ?thesis
      by (simp add: start_epoch_simps finish_epoch_start out_trace_simps)
  qed
qed

lemma one_epoch_other:
  assumes "one_epoch X p w = Some r" and "\<not> is_master p"
  shows "filter master_only (out_trace r) = filter master_only (trace w)"
proof -
  have ns: "\<And>e. loop_call e \<Longrightarrow> \<not> master_only e"
    by (erule loop_call.elims) simp_all
  from one_epoch_cases [OF assms(1)] show ?thesis
  proof (elim disjE exE conjE)
    fix s assume l: "while_steps X p (start_epoch w) = Some (Inl s)" and r: "r = Inl s"
    from while_steps_filter [OF l ns] r show ?thesis by (simp add: start_epoch_simps)
  next
    fix w' assume l: "while_steps X p (start_epoch w) = Some (Inr w')"
      and r: "r = finish_epoch X p w'"
    from while_steps_filter [OF l ns] r assms(2) show ?thesis
      by (simp add: start_epoch_simps finish_epoch_other out_trace_simps)
  qed
qed

lemma one_epoch_master:
  assumes "one_epoch X p w = Some r" and "is_master p"
  shows "\<exists>sc rest. filter master_only (out_trace r) = filter master_only (trace w) @ rest \<and>
           prefix rest (boundary_calls sc) \<and>
           (\<forall>w'. r = Inr w' \<longrightarrow> rest = boundary_calls sc)"
proof -
  have ns: "\<And>e. loop_call e \<Longrightarrow> \<not> master_only e"
    by (erule loop_call.elims) simp_all
  from one_epoch_cases [OF assms(1)] show ?thesis
  proof (elim disjE exE conjE)
    fix s assume l: "while_steps X p (start_epoch w) = Some (Inl s)" and r: "r = Inl s"
    from while_steps_filter [OF l ns] r
    have "filter master_only (out_trace r) = filter master_only (trace w) @ [] \<and>
          prefix [] (boundary_calls []) \<and> (\<forall>w'. r = Inr w' \<longrightarrow> [] = boundary_calls [])"
      by (simp add: start_epoch_simps)
    then show ?thesis by blast
  next
    fix w' assume l: "while_steps X p (start_epoch w) = Some (Inr w')"
      and r: "r = finish_epoch X p w'"
    from while_steps_filter [OF l ns]
    have t: "filter master_only (trace w') = filter master_only (trace w)"
      by (simp add: start_epoch_simps out_trace_simps)
    from finish_epoch_master [OF assms(2), of X w'] show ?thesis unfolding r t .
  qed
qed

lemma epochs_Suc_cases:
  assumes "epochs X p (Suc n) w = Some r"
  shows "(\<exists>s. one_epoch X p w = Some (Inl s) \<and> r = Inl s) \<or>
         (\<exists>w'. one_epoch X p w = Some (Inr w') \<and> epochs X p n w' = Some r)"
  using assms by (auto split: option.splits sum.splits)

lemma epochs_start:
  "epochs X p n w = Some r \<Longrightarrow>
     length (filter starts_epoch (out_trace r)) \<le> length (filter starts_epoch (trace w)) + n"
proof (induction n arbitrary: w)
  case 0
  then show ?case by (auto simp: out_trace_def)
next
  case (Suc n)
  from epochs_Suc_cases [OF Suc.prems] show ?case
  proof (elim disjE exE conjE)
    fix s assume o: "one_epoch X p w = Some (Inl s)" and r: "r = Inl s"
    from one_epoch_start [OF o] r show ?thesis by simp
  next
    fix w' assume o: "one_epoch X p w = Some (Inr w')" and e: "epochs X p n w' = Some r"
    from one_epoch_start [OF o]
    have "length (filter starts_epoch (trace w')) = length (filter starts_epoch (trace w)) + 1"
      by (simp add: out_trace_simps)
    with Suc.IH [OF e] show ?thesis by simp
  qed
qed

lemma epochs_other:
  assumes "\<not> is_master p"
  shows "epochs X p n w = Some r \<Longrightarrow>
     filter master_only (out_trace r) = filter master_only (trace w)"
proof (induction n arbitrary: w)
  case 0
  then show ?case by (auto simp: out_trace_def)
next
  case (Suc n)
  from epochs_Suc_cases [OF Suc.prems] show ?case
  proof (elim disjE exE conjE)
    fix s assume o: "one_epoch X p w = Some (Inl s)" and r: "r = Inl s"
    from one_epoch_other [OF o assms] r show ?thesis by simp
  next
    fix w' assume o: "one_epoch X p w = Some (Inr w')" and e: "epochs X p n w' = Some r"
    from one_epoch_other [OF o assms] Suc.IH [OF e] show ?thesis
      by (simp add: out_trace_simps)
  qed
qed

lemma epochs_master:
  assumes "is_master p"
  shows "epochs X p n w = Some r \<Longrightarrow>
     \<exists>scs rest sc. filter master_only (out_trace r) =
                      filter master_only (trace w) @ concat (map boundary_calls scs) @ rest \<and>
       prefix rest (boundary_calls sc) \<and>
       (case r of Inl s \<Rightarrow> length scs < n | Inr w' \<Rightarrow> length scs = n \<and> rest = [])"
proof (induction n arbitrary: w)
  case 0
  then have "filter master_only (out_trace r) =
               filter master_only (trace w) @ concat (map boundary_calls []) @ [] \<and>
             prefix [] (boundary_calls []) \<and>
             (case r of Inl s \<Rightarrow> length ([] :: scores list) < 0
              | Inr w' \<Rightarrow> length ([] :: scores list) = 0 \<and> ([] :: event list) = [])"
    by (auto simp: out_trace_def)
  then show ?case by blast
next
  case (Suc n)
  from epochs_Suc_cases [OF Suc.prems] show ?case
  proof (elim disjE exE conjE)
    fix s assume o: "one_epoch X p w = Some (Inl s)" and r: "r = Inl s"
    from one_epoch_master [OF o assms] r obtain sc rest where
      "filter master_only (out_trace r) = filter master_only (trace w) @ rest"
      "prefix rest (boundary_calls sc)"
      by auto
    then have "filter master_only (out_trace r) =
               filter master_only (trace w) @ concat (map boundary_calls []) @ rest \<and>
             prefix rest (boundary_calls sc) \<and>
             (case r of Inl s \<Rightarrow> length ([] :: scores list) < Suc n
              | Inr w' \<Rightarrow> length ([] :: scores list) = Suc n \<and> rest = [])"
      using r by simp
    then show ?thesis by blast
  next
    fix w' assume o: "one_epoch X p w = Some (Inr w')" and e: "epochs X p n w' = Some r"
    from one_epoch_master [OF o assms] obtain sc1 where
      t1: "filter master_only (trace w') = filter master_only (trace w) @ boundary_calls sc1"
      by (auto simp: out_trace_simps)
    from Suc.IH [OF e] obtain scs rest sc where
      t2: "filter master_only (out_trace r) =
             filter master_only (trace w') @ concat (map boundary_calls scs) @ rest"
      and pr: "prefix rest (boundary_calls sc)"
      and c: "case r of Inl s \<Rightarrow> length scs < n | Inr w' \<Rightarrow> length scs = n \<and> rest = []"
      by blast
    have "filter master_only (out_trace r) =
               filter master_only (trace w) @ concat (map boundary_calls (sc1 # scs)) @ rest \<and>
             prefix rest (boundary_calls sc) \<and>
             (case r of Inl s \<Rightarrow> length (sc1 # scs) < Suc n
              | Inr w' \<Rightarrow> length (sc1 # scs) = Suc n \<and> rest = [])"
      using t1 t2 pr c by (auto split: sum.splits)
    then show ?thesis by blast
  qed
qed

lemma startup_trace:
  assumes "startup X params = Inr (p, t, tr)"
  shows "\<exists>b. tr = [InitDistributedMode, InitializeExp, InitSignalHandler, SetCUDA b,
                    BuildEnv, BuildModules, NewTrainer, NewEvaluator]"
  using assms
  by (auto simp: startup_def Let_def split: sum.splits prod.splits if_splits)

lemma inner_step_no_tasks:
  assumes "tasks p = []"
  shows "inner_step X p w = Inr (w\<lparr>trace := trace w @ [Permutation []]\<rparr>)"
  using assms by (simp add: inner_step_def permutation_def record_call_def)

lemma while_steps_no_tasks_aux:
  assumes "while_steps X p w = Some r"
  shows "\<not> (tasks p = [] \<and> n_equations (the_trainer w) < epoch_size (the_trainer w))"
proof (rule while_steps.raw_induct
    [where P = "\<lambda>X p w r.
       \<not> (tasks p = [] \<and> n_equations (the_trainer w) < epoch_size (the_trainer w))",
      OF _ assms], goal_cases)
  case (1 f X p w r)
  show ?case
  proof
    assume a: "tasks p = [] \<and> n_equations (the_trainer w) < epoch_size (the_trainer w)"
    let ?w1 = "w\<lparr>trace := trace w @ [Permutation []]\<rparr>"
    from a 1(2) have "f X p ?w1 = Some r"
      by (simp add: inner_step_no_tasks)
    from 1(1) [OF this] a show False by simp
  qed
qed

lemma while_steps_no_tasks:
  assumes "tasks p = []" and "n_equations (the_trainer w) < epoch_size (the_trainer w)"
  shows "while_steps X p w = None"
proof (cases "while_steps X p w")
  case None
  then show ?thesis .
next
  case (Some r)
  from while_steps_no_tasks_aux [OF Some] assms show ?thesis by simp
qed

lemma call_trainer_counter:
  assumes "call_trainer ev f w = Inr w'"
  shows "f (the_trainer w) = Inr (the_trainer w')"
  using call_trainer_Inr [OF assms] by auto

lemma task_step_counter:
  assumes "counter_advances X" and "task_step X p i w = Inr w'"
  shows "n_equations (the_trainer w) < n_equations (the_trainer w') \<and>
         epoch_size (the_trainer w') = epoch_size (the_trainer w)"
proof -
  let ?task = "tasks p ! i"
  from assms(2) have i: "i < length (tasks p)"
    by (auto simp: task_step_def split: if_splits)
  from assms(2) i obtain w1 where
    w1: "(if export_data p
           then call_trainer (ExportData ?task) (trainer_export_data X ?task) w
           else call_trainer (EncDecStep ?task) (trainer_enc_dec_step X ?task) w) = Inr w1"
    and w': "call_trainer Iter (trainer_iter X) w1 = Inr w'"
    by (auto simp: task_step_def Let_def split: sum.splits)
  from w1 have "trainer_export_data X ?task (the_trainer w) = Inr (the_trainer w1) \<or>
                trainer_enc_dec_step X ?task (the_trainer w) = Inr (the_trainer w1)"
    by (auto dest: call_trainer_counter split: if_splits)
  with assms(1) have a: "n_equations (the_trainer w) \<le> n_equations (the_trainer w1) \<and>
      epoch_size (the_trainer w1) = epoch_size (the_trainer w)"
    unfolding counter_advances_def by blast
  from call_trainer_counter [OF w'] assms(1)
  have b: "n_equations (the_trainer w1) < n_equations (the_trainer w') \<and>
      epoch_size (the_trainer w') = epoch_size (the_trainer w1)"
    unfolding counter_advances_def by blast
  from a b show ?thesis by simp
qed

lemma task_steps_counter:
  assumes "counter_advances X"
  shows "task_steps X p ids w = Inr w' \<Longrightarrow>
         n_equations (the_trainer w) \<le> n_equations (the_trainer w') \<and>
         (ids \<noteq> [] \<longrightarrow> n_equations (the_trainer w) < n_equations (the_trainer w')) \<and>
         epoch_size (the_trainer w') = epoch_size (the_trainer w)"
proof (induction ids arbitrary: w)
  case Nil
  then show ?case by simp
next
  case (Cons i ids)
  from Cons.prems obtain w1 where s: "task_step X p i w = Inr w1"
    and r: "task_steps X p ids w1 = Inr w'"
    by (auto split: sum.splits)
  from task_step_counter [OF assms s] Cons.IH [OF r] show ?case by simp
qed

lemma inner_step_counter:
  assumes "counter_advances X" and "tasks p \<noteq> []" and "inner_step X p w = Inr w'"
  shows "n_equations (the_trainer w) < n_equations (the_trainer w') \<and>
         epoch_size (the_trainer w') = epoch_size (the_trainer w)"
proof -
  obtain ids g' where pg: "permutation (next_draw X) (length (tasks p)) (rng w) = (ids, g')"
    by (cases "permutation (next_draw X) (length (tasks p)) (rng w)")
  have "mset ids = mset [0..<length (tasks p)]"
    using permutation_mset [of "next_draw X" "length (tasks p)" "rng w"] pg by simp
  then have "length ids = length [0..<length (tasks p)]"
    by (rule mset_eq_length)
  with assms(2) have ne: "ids \<noteq> []" by auto
  from assms(3) pg
  have "task_steps X p ids (record_call (Permutation ids) (w\<lparr>rng := g'\<rparr>)) = Inr w'"
    by (simp add: inner_step_def)
  from task_steps_counter [OF assms(1) this] ne show ?thesis
    by (simp add: record_call_def)
qed

lemma while_steps_terminates:
  assumes "counter_advances X" and "tasks p \<noteq> []"
  shows "\<exists>r. while_steps X p w = Some r"
proof (induction "nat (epoch_size (the_trainer w) - n_equations (the_trainer w))"
    arbitrary: w rule: less_induct)
  case less
  show ?case
  proof (cases "n_equations (the_trainer w) < epoch_size (the_trainer w)")
    case False
    then show ?thesis by (subst while_steps.simps) simp
  next
    case True
    show ?thesis
    proof (cases "inner_step X p w")
      case (Inl s)
      with True show ?thesis by (subst while_steps.simps) simp
    next
      case (Inr w1)
      from inner_step_counter [OF assms Inr] True
      have "nat (epoch_size (the_trainer w1) - n_equations (the_trainer w1))
              < nat (epoch_size (the_trainer w) - n_equations (the_trainer w))"
        by simp
      from less [OF this] obtain r where "while_steps X p w1 = Some r" by blast
      with True Inr show ?thesis by (subst while_steps.simps) simp
    qed
  qed
qed

lemma example_startup:
  "startup example_collaborators example_config =
     Inr (example_config, example_trainer, startup_calls)"
  by code_simp

lemma example_startup_eval:
  "startup example_collaborators (example_config\<lparr>eval_only := True\<rparr>) =
     Inr (example_config\<lparr>eval_only := True\<rparr>, example_trainer, startup_calls)"
  by code_simp

lemma example_inner_step:
  "inner_step example_collaborators example_config example_start = Inr example_step_end"
  by code_simp

lemma example_while_steps:
  "while_steps example_collaborators example_config example_start = Some (Inr example_loop_end)"
  by code_simp

lemma example_one_epoch:
  "one_epoch example_collaborators example_config example_start = Some (Inr example_final)"
  by code_simp

lemma example_epochs:
  "epochs example_collaborators example_config 1 example_start = Some (Inr example_final)"
  by code_simp

lemma example_epochs_worker:
  "epochs example_collaborators (example_config\<lparr>is_master := False\<rparr>) 1 example_start =
     Some (Inr example_final_worker)"
  by code_simp

lemma example_main:
  "main example_collaborators example_config 0 = Some (Inr example_final)"
  by code_simp

lemma example_counter_advances: "counter_advances example_collaborators"
  by (auto simp: counter_advances_def example_collaborators_def)

lemma task_step_extends: "\<exists>evs. out_trace (task_step X p i w) = trace w @ evs"
  by (auto simp: task_step_def call_trainer_def out_trace_def Let_def split: sum.splits)

lemma task_steps_extends: "\<exists>evs. out_trace (task_steps X p ids w) = trace w @ evs"
proof (induction ids arbitrary: w)
  case Nil
  then show ?case by (simp add: out_trace_def)
next
  case (Cons i ids)
  from task_step_extends [of X p i w] obtain e1 where
    e1: "out_trace (task_step X p i w) = trace w @ e1" by blast
  show ?case
  proof (cases "task_step X p i w")
    case (Inl s)
    with e1 show ?thesis by auto
  next
    case (Inr w1)
    from Cons.IH [of w1] obtain e2 where "out_trace (task_steps X p ids w1) = trace w1 @ e2"
      by blast
    with e1 Inr have "out_trace (task_steps X p (i # ids) w) = trace w @ (e1 @ e2)"
      by (simp add: out_trace_def)
    then show ?thesis by blast
  qed
qed

lemma inner_step_extends:
  "\<exists>evs. out_trace (inner_step X p w) =
          trace w @ Permutation (fst (permutation (next_draw X) (length (tasks p)) (rng w))) # evs"
proof -
  obtain ids g' where pg: "permutation (next_draw X) (length (tasks p)) (rng w) = (ids, g')"
    by (cases "permutation (next_draw X) (length (tasks p)) (rng w)")
  from task_steps_extends [of X p ids "record_call (Permutation ids) (w\<lparr>rng := g'\<rparr>)"]
  show ?thesis by (simp add: inner_step_def pg record_call_def)
qed

lemma task_step_eq:
  assumes "i < length (tasks p)"
  shows "task_step X p i w =
     (case work_unit X p (tasks p ! i) (the_trainer w) of
        Inl s \<Rightarrow> Inl (s, trace w @ [work_event p (tasks p ! i)])
      | Inr t1 \<Rightarrow>
          (case trainer_iter X t1 of
             Inl s \<Rightarrow> Inl (s, trace w @ [work_event p (tasks p ! i), Iter])
           | Inr t2 \<Rightarrow>
               Inr (w\<lparr>the_trainer := t2,
                      trace := trace w @ [work_event p (tasks p ! i), Iter]\<rparr>)))"
  using assms
  by (auto simp: task_step_def work_unit_def work_event_def call_trainer_def Let_def
      split: sum.splits)

lemma task_step_calls:
  assumes "task_step X p i w = Inr w'"
  shows "i < length (tasks p) \<and>
         (\<exists>t1. work_unit X p (tasks p ! i) (the_trainer w) = Inr t1 \<and>
            trainer_iter X t1 = Inr (the_trainer w'))"
proof -
  from assms have i: "i < length (tasks p)"
    by (auto simp: task_step_def split: if_splits)
  from assms [unfolded task_step_eq [OF i]] i show ?thesis
    by (auto split: sum.splits)
qed

lemma task_steps_refines:
  assumes "\<forall>i \<in> set ids. i < length (tasks p)"
  shows "task_steps X p ids w =
     (case per_task_calls X p (map ((!) (tasks p)) ids) (the_trainer w) of
        Inl (s, calls) \<Rightarrow> Inl (s, trace w @ calls)
      | Inr (t', calls) \<Rightarrow> Inr (w\<lparr>the_trainer := t', trace := trace w @ calls\<rparr>))"
  using assms
proof (induction ids arbitrary: w)
  case Nil
  show ?case by simp
next
  case (Cons i ids)
  then have i: "i < length (tasks p)" and r: "\<forall>i \<in> set ids. i < length (tasks p)"
    by simp_all
  show ?case
    by (simp add: task_step_eq [OF i] Cons.IH [OF r] split: sum.splits prod.splits)
qed

lemma permutation_in_range:
  assumes "permutation draw n g = (ids, g')"
  shows "\<forall>i \<in> set ids. i < n"
proof -
  from permutation_mset [of draw n g] assms have "mset ids = mset [0..<n]" by simp
  then have "set ids = set [0..<n]" by (rule mset_eq_setD)
  then show ?thesis by simp
qed

lemma inner_step_refines:
  "inner_step X p w =
     (case permutation (next_draw X) (length (tasks p)) (rng w) of (ids, g') \<Rightarrow>
        (case per_task_calls X p (map ((!) (tasks p)) ids) (the_trainer w) of
           Inl (s, calls) \<Rightarrow> Inl (s, trace w @ Permutation ids # calls)
         | Inr (t', calls) \<Rightarrow>
             Inr \<lparr>the_trainer = t', rng = g', trace = trace w @ Permutation ids # calls\<rparr>))"
proof -
  obtain ids g' where pg: "permutation (next_draw X) (length (tasks p)) (rng w) = (ids, g')"
    by (cases "permutation (next_draw X) (length (tasks p)) (rng w)")
  note r = task_steps_refines [OF permutation_in_range [OF pg], of X
      "w\<lparr>rng := g', trace := trace w @ [Permutation ids]\<rparr>"]
  have l: "inner_step X p w =
      task_steps X p ids (w\<lparr>rng := g', trace := trace w @ [Permutation ids]\<rparr>)"
    by (simp add: inner_step_def pg record_call_def)
  show ?thesis unfolding l r pg
    by (cases w) (simp split: sum.splits prod.splits)
qed

lemma per_task_calls_calls:
  "per_task_calls X p order t = Inr (t', calls) \<Longrightarrow>
     calls = concat (map (\<lambda>task. [work_event p task, Iter]) order)"
  by (induction order arbitrary: t calls) (auto split: sum.splits prod.splits)

lemma per_task_calls_size:
  assumes "epoch_size_fixed X"
  shows "per_task_calls X p order t = Inr (t', calls) \<Longrightarrow> epoch_size t' = epoch_size t"
proof (induction order arbitrary: t calls)
  case Nil
  then show ?case by simp
next
  case (Cons task order)
  from Cons.prems obtain t1 t2 calls' where
    a: "work_unit X p task t = Inr t1" and b: "trainer_iter X t1 = Inr t2"
    and c: "per_task_calls X p order t2 = Inr (t', calls')"
    by (auto split: sum.splits prod.splits)
  from a assms have "epoch_size t1 = epoch_size t"
    unfolding epoch_size_fixed_def work_unit_def by (auto split: if_splits)
  moreover from b assms have "epoch_size t2 = epoch_size t1"
    unfolding epoch_size_fixed_def by blast
  ultimately show ?case using Cons.IH [OF c] by simp
qed

lemma inner_step_size:
  assumes "epoch_size_fixed X" and "inner_step X p w = Inr w'"
  shows "epoch_size (the_trainer w') = epoch_size (the_trainer w)"
proof -
  obtain ids g' where pg: "permutation (next_draw X) (length (tasks p)) (rng w) = (ids, g')"
    by (cases "permutation (next_draw X) (length (tasks p)) (rng w)")
  from assms(2) [unfolded inner_step_refines pg] obtain calls where
    "per_task_calls X p (map ((!) (tasks p)) ids) (the_trainer w) = Inr (the_trainer w', calls)"
    by (auto split: sum.splits prod.splits)
  from per_task_calls_size [OF assms(1) this] show ?thesis .
qed

lemma while_steps_size_aux:
  assumes "while_steps X p w = Some r"
  shows "epoch_size_fixed X \<longrightarrow>
           (\<forall>w'. r = Inr w' \<longrightarrow> epoch_size (the_trainer w') = epoch_size (the_trainer w))"
proof (rule while_steps.raw_induct
    [where P = "\<lambda>X p w r. epoch_size_fixed X \<longrightarrow>
           (\<forall>w'. r = Inr w' \<longrightarrow> epoch_size (the_trainer w') = epoch_size (the_trainer w))",
      OF _ assms], goal_cases)
  case (1 f X p w r)
  show ?case
  proof (intro impI allI)
    fix w' assume x: "epoch_size_fixed X" and r: "r = Inr w'"
    show "epoch_size (the_trainer w') = epoch_size (the_trainer w)"
    proof (cases "n_equations (the_trainer w) < epoch_size (the_trainer w)")
      case False
      with 1(2) r show ?thesis by simp
    next
      case True
      with 1(2) r obtain w1 where s: "inner_step X p w = Inr w1"
        and l: "f X p w1 = Some (Inr w')"
        by (auto split: sum.splits)
      from 1(1) [OF l] x inner_step_size [OF x s] show ?thesis by simp
    qed
  qed
qed

lemma while_steps_size:
  assumes "epoch_size_fixed X" and "while_steps X p w = Some (Inr w')"
  shows "epoch_size (the_trainer w') = epoch_size (the_trainer w)"
  using while_steps_size_aux [OF assms(2)] assms(1) by simp

lemma while_steps_stop:
  "epoch_size (the_trainer w) \<le> n_equations (the_trainer w) \<Longrightarrow>
     while_steps X p w = Some (Inr w)"
  by (subst while_steps.simps) simp

lemma while_steps_go:
  "n_equations (the_trainer w) < epoch_size (the_trainer w) \<Longrightarrow>
     while_steps X p w =
       (case inner_step X p w of Inl s \<Rightarrow> Some (Inl s) | Inr w' \<Rightarrow> while_steps X p w')"
  by (subst while_steps.simps) simp

lemma epochs_add:
  "epochs X p (k + m) w =
     (case epochs X p k w of
        None \<Rightarrow> None
      | Some (Inl s) \<Rightarrow> Some (Inl s)
      | Some (Inr w') \<Rightarrow> epochs X p m w')"
  by (induction k arbitrary: w) (auto split: option.splits sum.splits)

lemma epochs_started:
  "epochs X p n w = Some (Inr w') \<Longrightarrow>
     length (filter starts_epoch (trace w')) = length (filter starts_epoch (trace w)) + n"
proof (induction n arbitrary: w)
  case 0
  then show ?case by simp
next
  case (Suc n)
  from epochs_Suc_cases [OF Suc.prems] obtain w1 where
    o: "one_epoch X p w = Some (Inr w1)" and e: "epochs X p n w1 = Some (Inr w')"
    by auto
  from one_epoch_start [OF o]
  have "length (filter starts_epoch (trace w1)) = length (filter starts_epoch (trace w)) + 1"
    by (simp add: out_trace_simps)
  with Suc.IH [OF e] show ?case by simp
qed

lemma one_epoch_None:
  "one_epoch X p w = None \<longleftrightarrow> while_steps X p (start_epoch w) = None"
  by (auto simp: one_epoch_def split: option.splits sum.splits)

lemma epochs_None:
  "epochs X p n w = None \<Longrightarrow>
     \<exists>k w'. k < n \<and> epochs X p k w = Some (Inr w') \<and>
       while_steps X p (start_epoch w') = None"
proof (induction n arbitrary: w)
  case 0
  then show ?case by simp
next
  case (Suc n)
  show ?case
  proof (cases "one_epoch X p w")
    case None
    then have "0 < Suc n \<and> epochs X p 0 w = Some (Inr w) \<and>
       while_steps X p (start_epoch w) = None"
      by (simp add: one_epoch_None)
    then show ?thesis by blast
  next
    case (Some r)
    with Suc.prems obtain w1 where r: "r = Inr w1" and e: "epochs X p n w1 = None"
      by (cases r) auto
    from Suc.IH [OF e] obtain k w' where k: "k < n"
      and ek: "epochs X p k w1 = Some (Inr w')"
      and l: "while_steps X p (start_epoch w') = None"
      by blast
    from Some r ek have "epochs X p (Suc k) w = Some (Inr w')" by simp
    with k l have "Suc k < Suc n \<and> epochs X p (Suc k) w = Some (Inr w') \<and>
       while_steps X p (start_epoch w') = None"
      by simp
    then show ?thesis by blast
  qed
qed

lemma finish_epoch_worker:
  "\<not> is_master p \<Longrightarrow>
     finish_epoch X p w = Inr (w\<lparr>trace := trace w @ [LogInfo (EndOfEpoch (epoch (the_trainer w)))]\<rparr>)"
  by (simp add: finish_epoch_def Let_def record_call_def)

lemma finish_epoch_Inr:
  assumes "is_master p" and "finish_epoch X p w = Inr w'"
  shows "\<exists>sc t1 t2 t3. run_all_evals X (the_trainer w) = Inr (sc, t1) \<and> plain_scores sc \<and>
           trainer_save_best_model X sc t1 = Inr t2 \<and>
           trainer_save_periodic X t2 = Inr t3 \<and>
           trainer_end_epoch X sc t3 = Inr (the_trainer w') \<and>
           rng w' = rng w \<and>
           trace w' = trace w @ LogInfo (EndOfEpoch (epoch (the_trainer w))) #
                        evaluation_calls sc @ boundary_updates sc"
proof -
  let ?w1 = "record_call (LogInfo (EndOfEpoch (epoch (the_trainer w)))) w"
  from assms have "end_of_epoch X ?w1 = Inr w'"
    by (simp add: finish_epoch_def Let_def)
  from end_of_epoch_Inr [OF this] obtain sc t1 t2 t3 where
    a: "run_all_evals X (the_trainer ?w1) = Inr (sc, t1)" "plain_scores sc"
      "trainer_save_best_model X sc t1 = Inr t2" "trainer_save_periodic X t2 = Inr t3"
      "trainer_end_epoch X sc t3 = Inr (the_trainer w')"
    and w': "w' = ?w1\<lparr>the_trainer := the_trainer w',
                   trace := trace ?w1 @ evaluation_calls sc @ boundary_updates sc\<rparr>"
    by blast
  from w' have "rng w' = rng ?w1"
    by (metis (no_types) world.select_convs(2) world.surjective world.update_convs(1)
        world.update_convs(3))
  moreover from w' have "trace w' = trace ?w1 @ evaluation_calls sc @ boundary_updates sc"
    by (metis (no_types) world.select_convs(3) world.surjective world.update_convs(3))
  ultimately have "rng w' = rng w \<and>
      trace w' = trace w @ LogInfo (EndOfEpoch (epoch (the_trainer w))) #
                   evaluation_calls sc @ boundary_updates sc"
    by (simp add: record_call_def)
  with a show ?thesis by (auto simp: record_call_def)
qed

lemma finish_epoch_plain:
  assumes "is_master p" and "run_all_evals X (the_trainer w) = Inr (sc, t1)"
    and "plain_scores sc"
  shows "finish_epoch X p w =
     (case trainer_save_best_model X sc t1 of
        Inl s \<Rightarrow>
          Inl (s, trace w @ LogInfo (EndOfEpoch (epoch (the_trainer w))) #
                    evaluation_calls sc @ [SaveBestModel sc])
      | Inr t2 \<Rightarrow>
          (case trainer_save_periodic X t2 of
             Inl s \<Rightarrow>
               Inl (s, trace w @ LogInfo (EndOfEpoch (epoch (the_trainer w))) #
                         evaluation_calls sc @ [SaveBestModel sc, SavePeriodic])
           | Inr t3 \<Rightarrow>
               (case trainer_end_epoch X sc t3 of
                  Inl s \<Rightarrow>
                    Inl (s, trace w @ LogInfo (EndOfEpoch (epoch (the_trainer w))) #
                              evaluation_calls sc @ boundary_updates sc)
                | Inr t4 \<Rightarrow>
                    Inr \<lparr>the_trainer = t4, rng = rng w,
                         trace = trace w @ LogInfo (EndOfEpoch (epoch (the_trainer w))) #
                                   evaluation_calls sc @ boundary_updates sc\<rparr>)))"
proof -
  let ?w1 = "record_call (LogInfo (EndOfEpoch (epoch (the_trainer w)))) w"
  have f: "finish_epoch X p w = end_of_epoch X ?w1"
    using assms(1) by (simp add: finish_epoch_def Let_def)
  have r: "run_all_evals X (the_trainer ?w1) = Inr (sc, t1)"
    using assms(2) by (simp add: record_call_def)
  show ?thesis unfolding f end_of_epoch_plain [OF r assms(3)]
    by (simp add: record_call_def split: sum.splits)
qed

lemma finish_epoch_not_plain:
  assumes "is_master p" and "run_all_evals X (the_trainer w) = Inr (sc, t1)"
    and "\<not> plain_scores sc"
  shows "\<exists>lines. finish_epoch X p w =
           Inl (Raised TypeError,
                trace w @ LogInfo (EndOfEpoch (epoch (the_trainer w))) # RunAllEvals #
                  LogInfo (ScoresLine sc) # lines) \<and>
         prefix lines (metric_lines sc)"
proof -
  let ?w1 = "record_call (LogInfo (EndOfEpoch (epoch (the_trainer w)))) w"
  have f: "finish_epoch X p w = end_of_epoch X ?w1"
    using assms(1) by (simp add: finish_epoch_def Let_def)
  have r: "run_all_evals X (the_trainer ?w1) = Inr (sc, t1)"
    using assms(2) by (simp add: record_call_def)
  from end_of_epoch_not_plain [OF r assms(3)] show ?thesis unfolding f
    by (auto simp: record_call_def)
qed

text \<open>
  Claim C1. In training mode \<^verbatim>\<open>main\<close> is the epoch loop: no pass for zero epochs, and
  otherwise one epoch and then the remaining ones from the state that epoch left, so that a
  run that ends has started as many epochs as it was asked for. An epoch logs its start,
  sets the work-unit counter to zero and runs the \<^verbatim>\<open>while\<close> loop from there. The loop
  runs one more inner step while the counter is below the epoch size of the trainer, and
  returns at once, with no call made, when the counter is at or above it; so it is left
  normally only with the counter at or above the epoch size, which is the size at the entry
  of the loop when no call of the trainer moves it. An inner step is the draw of an order
  followed, for each task of that order in turn, by one work unit (export or training step,
  by mode) and then one bookkeeping call, each applied to the trainer as the call before
  left it, until a call stops the program; an inner step that runs to its end has made
  exactly these calls.
\<close>

theorem epoch_loop_work_units:
  "(startup X params = Inr (p, t, tr) \<and> \<not> eval_only p \<longrightarrow>
      main X params g = epochs X p (nat (max_epoch p)) \<lparr>the_trainer = t, rng = g, trace = tr\<rparr>) \<and>
   epochs X p 0 w = Some (Inr w) \<and>
   epochs X p (Suc n) w =
     (case one_epoch X p w of
        None \<Rightarrow> None
      | Some (Inl s) \<Rightarrow> Some (Inl s)
      | Some (Inr w') \<Rightarrow> epochs X p n w') \<and>
   (\<forall>w'. epochs X p n w = Some (Inr w') \<longrightarrow>
      length (filter starts_epoch (trace w')) = length (filter starts_epoch (trace w)) + n) \<and>
   start_epoch w =
     w\<lparr>the_trainer := (the_trainer w)\<lparr>n_equations := 0\<rparr>,
       trace := trace w @ [LogInfo (StartingEpoch (epoch (the_trainer w)))]\<rparr> \<and>
   one_epoch X p w =
     (case while_steps X p (start_epoch w) of
        None \<Rightarrow> None
      | Some (Inl s) \<Rightarrow> Some (Inl s)
      | Some (Inr w') \<Rightarrow> Some (finish_epoch X p w')) \<and>
   n_equations (the_trainer (start_epoch w)) = 0 \<and>
   (\<forall>r. one_epoch X p w = Some r \<longrightarrow>
      (\<exists>r0. while_steps X p (start_epoch w) = Some r0 \<and>
         (case r0 of
            Inl s \<Rightarrow> r = Inl s
          | Inr w' \<Rightarrow> \<not> n_equations (the_trainer w') < epoch_size (the_trainer w') \<and>
                      r = finish_epoch X p w'))) \<and>
   (n_equations (the_trainer w) < epoch_size (the_trainer w) \<longrightarrow>
      while_steps X p w =
        (case inner_step X p w of Inl s \<Rightarrow> Some (Inl s) | Inr w' \<Rightarrow> while_steps X p w')) \<and>
   (epoch_size (the_trainer w) \<le> n_equations (the_trainer w) \<longrightarrow>
      while_steps X p w = Some (Inr w)) \<and>
   inner_step X p w =
     (case permutation (next_draw X) (length (tasks p)) (rng w) of (ids, g') \<Rightarrow>
        (case per_task_calls X p (map ((!) (tasks p)) ids) (the_trainer w) of
           Inl (s, calls) \<Rightarrow> Inl (s, trace w @ Permutation ids # calls)
         | Inr (t', calls) \<Rightarrow>
             Inr \<lparr>the_trainer = t', rng = g', trace = trace w @ Permutation ids # calls\<rparr>)) \<and>
   (\<forall>order t0 t' calls. per_task_calls X p order t0 = Inr (t', calls) \<longrightarrow>
      calls = concat (map (\<lambda>task. [work_event p task, Iter]) order)) \<and>
   (\<forall>i w'. task_step X p i w = Inr w' \<longrightarrow>
      i < length (tasks p) \<and>
      (\<exists>t1. work_unit X p (tasks p ! i) (the_trainer w) = Inr t1 \<and>
         trainer_iter X t1 = Inr (the_trainer w'))) \<and>
   (\<forall>w'. inner_step X p w = Inr w' \<longrightarrow>
      (\<exists>ids. mset ids = mset [0..<length (tasks p)] \<and>
         trace w' = trace w @
           Permutation ids # concat (map (\<lambda>i. [work_event p (tasks p ! i), Iter]) ids))) \<and>
   (\<forall>w'. while_steps X p w = Some (Inr w') \<longrightarrow>
      epoch_size (the_trainer w') \<le> n_equations (the_trainer w') \<and>
      (epoch_size_fixed X \<longrightarrow> epoch_size (the_trainer w) \<le> n_equations (the_trainer w')))"
proof -
  have c1: "startup X params = Inr (p, t, tr) \<and> \<not> eval_only p \<longrightarrow>
      main X params g = epochs X p (nat (max_epoch p)) \<lparr>the_trainer = t, rng = g, trace = tr\<rparr>"
    by (simp add: main_def)
  have c2: "epochs X p 0 w = Some (Inr w)" by simp
  have c3: "epochs X p (Suc n) w =
     (case one_epoch X p w of
        None \<Rightarrow> None
      | Some (Inl s) \<Rightarrow> Some (Inl s)
      | Some (Inr w') \<Rightarrow> epochs X p n w')"
    by simp
  have c4: "\<forall>w'. epochs X p n w = Some (Inr w') \<longrightarrow>
      length (filter starts_epoch (trace w')) = length (filter starts_epoch (trace w)) + n"
    by (simp add: epochs_started)
  have c5: "start_epoch w =
     w\<lparr>the_trainer := (the_trainer w)\<lparr>n_equations := 0\<rparr>,
       trace := trace w @ [LogInfo (StartingEpoch (epoch (the_trainer w)))]\<rparr>"
    by (simp add: start_epoch_def record_call_def)
  have c6: "one_epoch X p w =
     (case while_steps X p (start_epoch w) of
        None \<Rightarrow> None
      | Some (Inl s) \<Rightarrow> Some (Inl s)
      | Some (Inr w') \<Rightarrow> Some (finish_epoch X p w'))"
    by (simp add: one_epoch_def)
  have c7: "n_equations (the_trainer (start_epoch w)) = 0"
    by (simp add: start_epoch_simps)
  have c8: "\<forall>r. one_epoch X p w = Some r \<longrightarrow>
      (\<exists>r0. while_steps X p (start_epoch w) = Some r0 \<and>
         (case r0 of
            Inl s \<Rightarrow> r = Inl s
          | Inr w' \<Rightarrow> \<not> n_equations (the_trainer w') < epoch_size (the_trainer w') \<and>
                      r = finish_epoch X p w'))"
  proof (intro allI impI)
    fix r assume o: "one_epoch X p w = Some r"
    from one_epoch_cases [OF o]
    show "\<exists>r0. while_steps X p (start_epoch w) = Some r0 \<and>
         (case r0 of
            Inl s \<Rightarrow> r = Inl s
          | Inr w' \<Rightarrow> \<not> n_equations (the_trainer w') < epoch_size (the_trainer w') \<and>
                      r = finish_epoch X p w')"
      by (auto dest: while_steps_exit)
  qed
  have c9: "n_equations (the_trainer w) < epoch_size (the_trainer w) \<longrightarrow>
      while_steps X p w =
        (case inner_step X p w of Inl s \<Rightarrow> Some (Inl s) | Inr w' \<Rightarrow> while_steps X p w')"
    by (simp add: while_steps_go)
  have c10: "epoch_size (the_trainer w) \<le> n_equations (the_trainer w) \<longrightarrow>
      while_steps X p w = Some (Inr w)"
    by (simp add: while_steps_stop)
  note c11 = inner_step_refines [of X p w]
  have c12: "\<forall>order t0 t' calls. per_task_calls X p order t0 = Inr (t', calls) \<longrightarrow>
      calls = concat (map (\<lambda>task. [work_event p task, Iter]) order)"
    using per_task_calls_calls by blast
  have c13: "\<forall>i w'. task_step X p i w = Inr w' \<longrightarrow>
      i < length (tasks p) \<and>
      (\<exists>t1. work_unit X p (tasks p ! i) (the_trainer w) = Inr t1 \<and>
         trainer_iter X t1 = Inr (the_trainer w'))"
    using task_step_calls by blast
  have c14: "\<forall>w'. inner_step X p w = Inr w' \<longrightarrow>
      (\<exists>ids. mset ids = mset [0..<length (tasks p)] \<and>
         trace w' = trace w @
           Permutation ids # concat (map (\<lambda>i. [work_event p (tasks p ! i), Iter]) ids))"
  proof (intro allI impI)
    fix w' assume s: "inner_step X p w = Inr w'"
    let ?ids = "fst (permutation (next_draw X) (length (tasks p)) (rng w))"
    from inner_step_Inr [OF s]
    have "mset ?ids = mset [0..<length (tasks p)] \<and>
         trace w' = trace w @
           Permutation ?ids # concat (map (\<lambda>i. [work_event p (tasks p ! i), Iter]) ?ids)"
      by (simp add: permutation_mset step_calls_def)
    then show "\<exists>ids. mset ids = mset [0..<length (tasks p)] \<and>
         trace w' = trace w @
           Permutation ids # concat (map (\<lambda>i. [work_event p (tasks p ! i), Iter]) ids)"
      by blast
  qed
  have c15: "\<forall>w'. while_steps X p w = Some (Inr w') \<longrightarrow>
      epoch_size (the_trainer w') \<le> n_equations (the_trainer w') \<and>
      (epoch_size_fixed X \<longrightarrow> epoch_size (the_trainer w) \<le> n_equations (the_trainer w'))"
  proof (intro allI impI conjI)
    fix w' assume l: "while_steps X p w = Some (Inr w')"
    from while_steps_exit [OF l]
    show e: "epoch_size (the_trainer w') \<le> n_equations (the_trainer w')" by simp
    assume "epoch_size_fixed X"
    from while_steps_size [OF this l] e
    show "epoch_size (the_trainer w) \<le> n_equations (the_trainer w')" by simp
  qed
  show ?thesis
    apply (rule conjI [OF c1])
    apply (rule conjI [OF c2])
    apply (rule conjI [OF c3])
    apply (rule conjI [OF c4])
    apply (rule conjI [OF c5])
    apply (rule conjI [OF c6])
    apply (rule conjI [OF c7])
    apply (rule conjI [OF c8])
    apply (rule conjI [OF c9])
    apply (rule conjI [OF c10])
    apply (rule conjI [OF c11])
    apply (rule conjI [OF c12])
    apply (rule conjI [OF c13])
    apply (rule conjI [OF c14])
    apply (rule c15)
    done
qed

lemma example_per_task_calls:
  "per_task_calls example_collaborators example_config [''t2'', ''t1''] example_trainer =
     Inr (example_trainer\<lparr>n_equations := 2\<rparr>,
          [EncDecStep ''t2'', Iter, EncDecStep ''t1'', Iter])"
  by code_simp

lemma example_task_step:
  "task_step example_collaborators example_config 1 example_start =
     Inr (example_start\<lparr>the_trainer := example_trainer\<lparr>n_equations := 1\<rparr>,
            trace := startup_calls @ [EncDecStep ''t2'', Iter]\<rparr>)"
  by code_simp

lemma example_size_fixed: "epoch_size_fixed example_collaborators"
  by (auto simp: epoch_size_fixed_def example_collaborators_def)

text \<open>
  Scenario 1 of the spec, scaled down: one epoch of two inner steps over two tasks, ending
  with the counter equal to the epoch size. The first inner step draws the order
  \<open>[1, 0]\<close>: a training step and a bookkeeping call for the second task, then for the
  first, after which the trainer has counted two work units.
\<close>

theorem epoch_loop_work_units_witness:
  "startup example_collaborators example_config =
     Inr (example_config, example_trainer, startup_calls) \<and>
   \<not> eval_only example_config \<and>
   main example_collaborators example_config 0 =
     epochs example_collaborators example_config 1 example_start \<and>
   epochs example_collaborators example_config 1 example_start = Some (Inr example_final) \<and>
   length (filter starts_epoch (trace example_final)) =
     length (filter starts_epoch (trace example_start)) + 1 \<and>
   one_epoch example_collaborators example_config example_start = Some (Inr example_final) \<and>
   n_equations (the_trainer example_start) < epoch_size (the_trainer example_start) \<and>
   inner_step example_collaborators example_config example_start = Inr example_step_end \<and>
   per_task_calls example_collaborators example_config [''t2'', ''t1''] example_trainer =
     Inr (example_trainer\<lparr>n_equations := 2\<rparr>,
          [EncDecStep ''t2'', Iter, EncDecStep ''t1'', Iter]) \<and>
   [EncDecStep ''t2'', Iter, EncDecStep ''t1'', Iter] =
     concat (map (\<lambda>task. [work_event example_config task, Iter]) [''t2'', ''t1'']) \<and>
   task_step example_collaborators example_config 1 example_start =
     Inr (example_start\<lparr>the_trainer := example_trainer\<lparr>n_equations := 1\<rparr>,
            trace := startup_calls @ [EncDecStep ''t2'', Iter]\<rparr>) \<and>
   (\<exists>t1. work_unit example_collaborators example_config ''t2'' example_trainer = Inr t1 \<and>
      trainer_iter example_collaborators t1 = Inr (example_trainer\<lparr>n_equations := 1\<rparr>)) \<and>
   while_steps example_collaborators example_config example_start =
     Some (Inr example_loop_end) \<and>
   epoch_size_fixed example_collaborators \<and>
   epoch_size (the_trainer example_start) \<le> n_equations (the_trainer example_loop_end) \<and>
   epoch_size (the_trainer example_loop_end) \<le> n_equations (the_trainer example_loop_end) \<and>
   while_steps example_collaborators example_config example_loop_end =
     Some (Inr example_loop_end)"
proof -
  note t = epoch_loop_work_units [of example_collaborators example_config example_config
      example_trainer startup_calls 0 example_start 1]
  note u = epoch_loop_work_units [of example_collaborators example_config example_config
      example_trainer startup_calls 0 example_loop_end 1]
  have ne: "\<not> eval_only example_config" by (simp add: example_config_def)
  have lt: "n_equations (the_trainer example_start) < epoch_size (the_trainer example_start)"
    by (simp add: example_start_def example_trainer_def)
  have ge: "epoch_size (the_trainer example_loop_end) \<le> n_equations (the_trainer example_loop_end)"
    by (simp add: example_loop_end_def example_trainer_def)
  have me: "nat (max_epoch example_config) = 1" by (simp add: example_config_def)
  from t [THEN conjunct1] example_startup ne me
  have a: "main example_collaborators example_config 0 =
     epochs example_collaborators example_config 1 example_start"
    by (simp add: example_start_def)
  from t example_epochs
  have b: "length (filter starts_epoch (trace example_final)) =
     length (filter starts_epoch (trace example_start)) + 1"
    by blast
  from t example_per_task_calls
  have c: "[EncDecStep ''t2'', Iter, EncDecStep ''t1'', Iter] =
     concat (map (\<lambda>task. [work_event example_config task, Iter]) [''t2'', ''t1''])"
    by blast
  from t example_task_step
  have "\<exists>t1. work_unit example_collaborators example_config (tasks example_config ! 1)
               (the_trainer example_start) = Inr t1 \<and>
          trainer_iter example_collaborators t1 =
            Inr (the_trainer (example_start\<lparr>the_trainer := example_trainer\<lparr>n_equations := 1\<rparr>,
                   trace := startup_calls @ [EncDecStep ''t2'', Iter]\<rparr>))"
    by blast
  then have d: "\<exists>t1. work_unit example_collaborators example_config ''t2'' example_trainer = Inr t1 \<and>
      trainer_iter example_collaborators t1 = Inr (example_trainer\<lparr>n_equations := 1\<rparr>)"
    by (simp add: example_config_def example_start_def)
  from t example_while_steps example_size_fixed
  have e: "epoch_size (the_trainer example_start) \<le> n_equations (the_trainer example_loop_end)"
    by blast
  from u ge
  have f: "while_steps example_collaborators example_config example_loop_end =
     Some (Inr example_loop_end)"
    by blast
  from a b c d e f ne lt ge show ?thesis
    using example_startup example_epochs example_one_epoch example_inner_step
      example_per_task_calls example_task_step example_while_steps example_size_fixed
    by simp
qed

text \<open>
  Claim C2. Whatever the generator and the task list, the tasks taken in the drawn order
  are the configured tasks, each as often as it is configured. Every inner step begins by
  drawing its own order from the current state of the generator and leaves the generator
  advanced, and the calls of a \<^verbatim>\<open>while\<close> loop that ends are a sequence of inner-step
  blocks, each opened by its own draw.
\<close>

theorem task_order_is_permutation:
  "mset (map ((!) (tasks p)) (fst (permutation (next_draw X) (length (tasks p)) g))) =
     mset (tasks p) \<and>
   (\<exists>evs. out_trace (inner_step X p w) =
      trace w @ Permutation (fst (permutation (next_draw X) (length (tasks p)) (rng w))) # evs) \<and>
   (\<forall>w'. inner_step X p w = Inr w' \<longrightarrow>
      rng w' = snd (permutation (next_draw X) (length (tasks p)) (rng w)) \<and>
      trace w' = trace w @
        step_calls p (fst (permutation (next_draw X) (length (tasks p)) (rng w)))) \<and>
   (\<forall>w'. while_steps X p w = Some (Inr w') \<longrightarrow>
      (\<exists>idss. (\<forall>ids \<in> set idss. mset (map ((!) (tasks p)) ids) = mset (tasks p)) \<and>
         trace w' = trace w @ concat (map (step_calls p) idss)))"
proof (intro conjI allI impI)
  show "mset (map ((!) (tasks p)) (fst (permutation (next_draw X) (length (tasks p)) g))) =
     mset (tasks p)"
    by (rule order_mset) (rule permutation_mset)
next
  show "\<exists>evs. out_trace (inner_step X p w) =
      trace w @ Permutation (fst (permutation (next_draw X) (length (tasks p)) (rng w))) # evs"
    by (rule inner_step_extends)
next
  fix w' assume s: "inner_step X p w = Inr w'"
  from inner_step_Inr [OF s]
  show "rng w' = snd (permutation (next_draw X) (length (tasks p)) (rng w))"
    and "trace w' = trace w @
        step_calls p (fst (permutation (next_draw X) (length (tasks p)) (rng w)))"
    by simp_all
next
  fix w' assume l: "while_steps X p w = Some (Inr w')"
  from while_steps_trace [OF l] obtain idss where
    a: "\<forall>ids \<in> set idss. mset ids = mset [0..<length (tasks p)]"
    and t: "trace w' = trace w @ concat (map (step_calls p) idss)"
    by blast
  from a have "\<forall>ids \<in> set idss. mset (map ((!) (tasks p)) ids) = mset (tasks p)"
    using order_mset [of _ "tasks p"] by blast
  with t show "\<exists>idss. (\<forall>ids \<in> set idss. mset (map ((!) (tasks p)) ids) = mset (tasks p)) \<and>
         trace w' = trace w @ concat (map (step_calls p) idss)"
    by blast
qed

lemma example_orders:
  "fst (permutation (next_draw example_collaborators) (length (tasks example_config)) 0) = [1, 0]"
  "snd (permutation (next_draw example_collaborators) (length (tasks example_config)) 0) = 1"
  "fst (permutation (next_draw example_collaborators) (length (tasks example_config)) 1) = [0, 1]"
  by code_simp+

text \<open>
  In the example run the two inner steps of the one epoch draw different orders: first
  \<open>[1, 0]\<close>, then \<open>[0, 1]\<close>.
\<close>

theorem task_order_is_permutation_witness:
  "inner_step example_collaborators example_config example_start = Inr example_step_end \<and>
   while_steps example_collaborators example_config example_start =
     Some (Inr example_loop_end) \<and>
   rng example_step_end = 1 \<and>
   trace example_step_end = trace example_start @ step_calls example_config [1, 0] \<and>
   trace example_loop_end =
     trace example_start @ step_calls example_config [1, 0] @ step_calls example_config [0, 1]"
proof -
  note t = task_order_is_permutation
    [of example_config example_collaborators 0 example_start]
  have r0: "rng example_start = 0" by (simp add: example_start_def)
  from t example_inner_step
  have "rng example_step_end =
          snd (permutation (next_draw example_collaborators) (length (tasks example_config))
                 (rng example_start)) \<and>
        trace example_step_end = trace example_start @
          step_calls example_config
            (fst (permutation (next_draw example_collaborators) (length (tasks example_config))
                    (rng example_start)))"
    by blast
  then have a: "rng example_step_end = 1 \<and>
     trace example_step_end = trace example_start @ step_calls example_config [1, 0]"
    by (simp add: r0 example_orders)
  have b: "trace example_loop_end =
     trace example_start @ step_calls example_config [1, 0] @ step_calls example_config [0, 1]"
    by (simp add: example_loop_end_def example_start_def step_calls_def work_event_def
        example_config_def)
  from a b show ?thesis using example_inner_step example_while_steps by simp
qed

text \<open>
  Claim C6, as amended. After a start-up that succeeds, in evaluation-only mode the run
  always stops, without starting an epoch and with exactly one call of
  \<^verbatim>\<open>run_all_evals\<close>. When that call returns a score mapping all of whose values both
  \<^verbatim>\<open>%.6f\<close> and \<^verbatim>\<open>json.dumps\<close> accept, the run logs one line per metric, in the order of
  the mapping, then one line with the whole mapping, and exits. When some value is not
  accepted, the run stops with a type error after the lines of some of the first metrics,
  without the line with the whole mapping and without reaching \<^verbatim>\<open>exit()\<close>. When the call
  raises, the run stops there. In training mode a run that stops or ends has started at most
  \<^verbatim>\<open>max_epoch\<close> epochs, and a run that goes on for ever has completed fewer than
  \<^verbatim>\<open>max_epoch\<close> epochs and stays in the \<^verbatim>\<open>while\<close> loop of the next one.
\<close>

theorem eval_only_single_pass:
  assumes "startup X params = Inr (p, t, tr)"
  shows "(eval_only p \<longrightarrow>
            (\<exists>s tr'. main X params g = Some (Inl (s, tr')) \<and>
               filter starts_epoch tr' = [] \<and>
               filter (\<lambda>e. e = RunAllEvals) tr' = [RunAllEvals]) \<and>
            (\<forall>sc t'. run_all_evals X t = Inr (sc, t') \<and> plain_scores sc \<longrightarrow>
               main X params g =
                 Some (Inl (Exit, tr @ RunAllEvals # metric_lines sc @ [LogInfo (JsonLine sc)]))) \<and>
            (\<forall>sc t'. run_all_evals X t = Inr (sc, t') \<and> \<not> plain_scores sc \<longrightarrow>
               (\<exists>lines. main X params g =
                           Some (Inl (Raised TypeError, tr @ RunAllEvals # lines)) \<and>
                  prefix lines (metric_lines sc))) \<and>
            (\<forall>s. run_all_evals X t = Inl s \<longrightarrow>
               main X params g = Some (Inl (s, tr @ [RunAllEvals])))) \<and>
         (\<not> eval_only p \<longrightarrow>
            (\<forall>r. main X params g = Some r \<longrightarrow>
               length (filter starts_epoch (out_trace r)) \<le> nat (max_epoch p)) \<and>
            (main X params g = None \<longrightarrow>
               (\<exists>k w'. k < nat (max_epoch p) \<and>
                  epochs X p k \<lparr>the_trainer = t, rng = g, trace = tr\<rparr> = Some (Inr w') \<and>
                  length (filter starts_epoch (trace w')) = k \<and>
                  while_steps X p (start_epoch w') = None)))"
proof -
  from startup_trace [OF assms] obtain b where
    tr: "tr = [InitDistributedMode, InitializeExp, InitSignalHandler, SetCUDA b,
               BuildEnv, BuildModules, NewTrainer, NewEvaluator]"
    by blast
  have ml: "filter starts_epoch (metric_lines sc) = []"
    "filter (\<lambda>e. e = RunAllEvals) (metric_lines sc) = []" for sc
    by (rule metric_lines_filter, simp)+
  have plain: "evaluate_and_exit X t tr =
      (Exit, tr @ RunAllEvals # metric_lines sc @ [LogInfo (JsonLine sc)])"
    if "run_all_evals X t = Inr (sc, t')" "plain_scores sc" for sc t'
    using that by (simp add: evaluate_and_exit_def log_scores_plain)
  have not_plain: "\<exists>lines. evaluate_and_exit X t tr = (Raised TypeError, tr @ RunAllEvals # lines) \<and>
      prefix lines (metric_lines sc)"
    if "run_all_evals X t = Inr (sc, t')" "\<not> plain_scores sc" for sc t'
    using log_scores_not_plain [OF that(2)] that(1) by (auto simp: evaluate_and_exit_def)
  have raises: "evaluate_and_exit X t tr = (s, tr @ [RunAllEvals])"
    if "run_all_evals X t = Inl s" for s
    using that by (simp add: evaluate_and_exit_def)
  have once: "filter starts_epoch (snd (evaluate_and_exit X t tr)) = [] \<and>
      filter (\<lambda>e. e = RunAllEvals) (snd (evaluate_and_exit X t tr)) = [RunAllEvals]"
  proof (cases "run_all_evals X t")
    case (Inl s)
    from raises [OF this] show ?thesis by (simp add: tr)
  next
    case (Inr a)
    obtain sc t' where a: "a = (sc, t')" by (cases a)
    note r = Inr [unfolded a]
    show ?thesis
    proof (cases "plain_scores sc")
      case True
      from plain [OF r True] show ?thesis by (simp add: tr ml)
    next
      case False
      from not_plain [OF r False] obtain lines where
        e: "evaluate_and_exit X t tr = (Raised TypeError, tr @ RunAllEvals # lines)"
        and p: "prefix lines (metric_lines sc)"
        by blast
      from prefix_filter_empty [OF p ml(1)] prefix_filter_empty [OF p ml(2)] e
      show ?thesis by (simp add: tr)
    qed
  qed
  have ev: "eval_only p \<longrightarrow>
            (\<exists>s tr'. main X params g = Some (Inl (s, tr')) \<and>
               filter starts_epoch tr' = [] \<and>
               filter (\<lambda>e. e = RunAllEvals) tr' = [RunAllEvals]) \<and>
            (\<forall>sc t'. run_all_evals X t = Inr (sc, t') \<and> plain_scores sc \<longrightarrow>
               main X params g =
                 Some (Inl (Exit, tr @ RunAllEvals # metric_lines sc @ [LogInfo (JsonLine sc)]))) \<and>
            (\<forall>sc t'. run_all_evals X t = Inr (sc, t') \<and> \<not> plain_scores sc \<longrightarrow>
               (\<exists>lines. main X params g =
                           Some (Inl (Raised TypeError, tr @ RunAllEvals # lines)) \<and>
                  prefix lines (metric_lines sc))) \<and>
            (\<forall>s. run_all_evals X t = Inl s \<longrightarrow>
               main X params g = Some (Inl (s, tr @ [RunAllEvals])))"
  proof
    assume e: "eval_only p"
    then have m: "main X params g = Some (Inl (evaluate_and_exit X t tr))"
      using assms by (simp add: main_def)
    have 1: "\<exists>s tr'. main X params g = Some (Inl (s, tr')) \<and>
               filter starts_epoch tr' = [] \<and>
               filter (\<lambda>e. e = RunAllEvals) tr' = [RunAllEvals]"
      using once m by (cases "evaluate_and_exit X t tr") auto
    have 2: "\<forall>sc t'. run_all_evals X t = Inr (sc, t') \<and> plain_scores sc \<longrightarrow>
               main X params g =
                 Some (Inl (Exit, tr @ RunAllEvals # metric_lines sc @ [LogInfo (JsonLine sc)]))"
      using plain m by auto
    have 3: "\<forall>sc t'. run_all_evals X t = Inr (sc, t') \<and> \<not> plain_scores sc \<longrightarrow>
               (\<exists>lines. main X params g =
                           Some (Inl (Raised TypeError, tr @ RunAllEvals # lines)) \<and>
                  prefix lines (metric_lines sc))"
      using not_plain m by auto
    have 4: "\<forall>s. run_all_evals X t = Inl s \<longrightarrow>
               main X params g = Some (Inl (s, tr @ [RunAllEvals]))"
      using raises m by auto
    from 1 2 3 4 show "(\<exists>s tr'. main X params g = Some (Inl (s, tr')) \<and>
               filter starts_epoch tr' = [] \<and>
               filter (\<lambda>e. e = RunAllEvals) tr' = [RunAllEvals]) \<and>
            (\<forall>sc t'. run_all_evals X t = Inr (sc, t') \<and> plain_scores sc \<longrightarrow>
               main X params g =
                 Some (Inl (Exit, tr @ RunAllEvals # metric_lines sc @ [LogInfo (JsonLine sc)]))) \<and>
            (\<forall>sc t'. run_all_evals X t = Inr (sc, t') \<and> \<not> plain_scores sc \<longrightarrow>
               (\<exists>lines. main X params g =
                           Some (Inl (Raised TypeError, tr @ RunAllEvals # lines)) \<and>
                  prefix lines (metric_lines sc))) \<and>
            (\<forall>s. run_all_evals X t = Inl s \<longrightarrow>
               main X params g = Some (Inl (s, tr @ [RunAllEvals])))"
      by (intro conjI)
  qed
  have tn: "\<not> eval_only p \<longrightarrow>
            (\<forall>r. main X params g = Some r \<longrightarrow>
               length (filter starts_epoch (out_trace r)) \<le> nat (max_epoch p)) \<and>
            (main X params g = None \<longrightarrow>
               (\<exists>k w'. k < nat (max_epoch p) \<and>
                  epochs X p k \<lparr>the_trainer = t, rng = g, trace = tr\<rparr> = Some (Inr w') \<and>
                  length (filter starts_epoch (trace w')) = k \<and>
                  while_steps X p (start_epoch w') = None))"
  proof (intro impI conjI allI)
    fix r
    assume e: "\<not> eval_only p" and m: "main X params g = Some r"
    then have "epochs X p (nat (max_epoch p)) \<lparr>the_trainer = t, rng = g, trace = tr\<rparr> = Some r"
      using assms by (simp add: main_def)
    from epochs_start [OF this]
    show "length (filter starts_epoch (out_trace r)) \<le> nat (max_epoch p)"
      by (simp add: tr)
  next
    assume e: "\<not> eval_only p" and m: "main X params g = None"
    then have "epochs X p (nat (max_epoch p)) \<lparr>the_trainer = t, rng = g, trace = tr\<rparr> = None"
      using assms by (simp add: main_def)
    from epochs_None [OF this] obtain k w' where k: "k < nat (max_epoch p)"
      and ek: "epochs X p k \<lparr>the_trainer = t, rng = g, trace = tr\<rparr> = Some (Inr w')"
      and l: "while_steps X p (start_epoch w') = None"
      by blast
    from epochs_started [OF ek] have "length (filter starts_epoch (trace w')) = k"
      by (simp add: tr)
    with k ek l show "\<exists>k w'. k < nat (max_epoch p) \<and>
                  epochs X p k \<lparr>the_trainer = t, rng = g, trace = tr\<rparr> = Some (Inr w') \<and>
                  length (filter starts_epoch (trace w')) = k \<and>
                  while_steps X p (start_epoch w') = None"
      by blast
  qed
  from ev tn show ?thesis by (rule conjI)
qed

lemma example_scores_eval:
  "run_all_evals example_collaborators example_trainer = Inr (example_scores, example_trainer)"
  by code_simp

lemma example_scores_plain: "plain_scores example_scores"
  by (simp add: plain_scores_def example_scores_def)

lemma example_startup_no_tasks:
  "startup example_collaborators (example_config\<lparr>tasks := []\<rparr>) =
     Inr (example_config\<lparr>tasks := []\<rparr>, example_trainer, startup_calls)"
  by code_simp

lemma example_startup_float32:
  "startup example_float32 (example_config\<lparr>eval_only := True\<rparr>) =
     Inr (example_config\<lparr>eval_only := True\<rparr>, example_trainer, startup_calls)"
  by code_simp

lemma example_main_no_tasks:
  "main example_collaborators (example_config\<lparr>tasks := []\<rparr>) 0 = None"
proof -
  have "while_steps example_collaborators (example_config\<lparr>tasks := []\<rparr>)
          (start_epoch example_start) = None"
    by (rule while_steps_no_tasks)
      (simp_all add: start_epoch_simps example_start_def example_trainer_def)
  then have "one_epoch example_collaborators (example_config\<lparr>tasks := []\<rparr>) example_start = None"
    by (simp add: one_epoch_def)
  then have ep: "epochs example_collaborators (example_config\<lparr>tasks := []\<rparr>) (Suc 0)
      example_start = None"
    by simp
  have me: "nat (max_epoch (example_config\<lparr>tasks := []\<rparr>)) = Suc 0"
    by (simp add: example_config_def)
  have ne: "\<not> eval_only (example_config\<lparr>tasks := []\<rparr>)"
    by (simp add: example_config_def)
  have m: "main example_collaborators (example_config\<lparr>tasks := []\<rparr>) 0 =
      epochs example_collaborators (example_config\<lparr>tasks := []\<rparr>)
        (nat (max_epoch (example_config\<lparr>tasks := []\<rparr>))) example_start"
    by (simp add: main_def example_startup_no_tasks ne example_start_def)
  show ?thesis unfolding m me by (rule ep)
qed

text \<open>
  The example configuration in evaluation-only mode, in training mode with one epoch, and
  in training mode with no task, where the run stays in its first epoch.
\<close>

theorem eval_only_single_pass_witness:
  "startup example_collaborators (example_config\<lparr>eval_only := True\<rparr>) =
     Inr (example_config\<lparr>eval_only := True\<rparr>, example_trainer, startup_calls) \<and>
   eval_only (example_config\<lparr>eval_only := True\<rparr>) \<and>
   run_all_evals example_collaborators example_trainer = Inr (example_scores, example_trainer) \<and>
   plain_scores example_scores \<and>
   main example_collaborators (example_config\<lparr>eval_only := True\<rparr>) 0 =
     Some (Inl (Exit, startup_calls @
       [RunAllEvals, LogInfo (MetricLine ''valid_acc'' (PyFloat 1)),
        LogInfo (JsonLine example_scores)])) \<and>
   startup example_collaborators example_config =
     Inr (example_config, example_trainer, startup_calls) \<and>
   \<not> eval_only example_config \<and>
   main example_collaborators example_config 0 = Some (Inr example_final) \<and>
   length (filter starts_epoch (out_trace (Inr example_final :: (unit, nat) outcome))) \<le> 1 \<and>
   startup example_collaborators (example_config\<lparr>tasks := []\<rparr>) =
     Inr (example_config\<lparr>tasks := []\<rparr>, example_trainer, startup_calls) \<and>
   main example_collaborators (example_config\<lparr>tasks := []\<rparr>) 0 = None \<and>
   while_steps example_collaborators (example_config\<lparr>tasks := []\<rparr>)
     (start_epoch example_start) = None"
proof -
  note t1 = eval_only_single_pass [OF example_startup_eval, where g = 0]
  note t2 = eval_only_single_pass [OF example_startup, where g = 0]
  note t3 = eval_only_single_pass [OF example_startup_no_tasks, where g = 0]
  have e: "eval_only (example_config\<lparr>eval_only := True\<rparr>)" by simp
  have ne: "\<not> eval_only example_config" "\<not> eval_only (example_config\<lparr>tasks := []\<rparr>)"
    by (simp_all add: example_config_def)
  have me: "nat (max_epoch example_config) = 1"
    "nat (max_epoch (example_config\<lparr>tasks := []\<rparr>)) = 1"
    by (simp_all add: example_config_def)
  from t1 e example_scores_eval example_scores_plain
  have "main example_collaborators (example_config\<lparr>eval_only := True\<rparr>) 0 =
     Some (Inl (Exit, startup_calls @ RunAllEvals # metric_lines example_scores @
       [LogInfo (JsonLine example_scores)]))"
    by blast
  then have a: "main example_collaborators (example_config\<lparr>eval_only := True\<rparr>) 0 =
     Some (Inl (Exit, startup_calls @
       [RunAllEvals, LogInfo (MetricLine ''valid_acc'' (PyFloat 1)),
        LogInfo (JsonLine example_scores)]))"
    by (simp add: example_scores_def metric_lines_def)
  from t2 ne example_main me
  have b: "length (filter starts_epoch (out_trace (Inr example_final :: (unit, nat) outcome))) \<le> 1"
    by auto
  from t3 ne(2) example_main_no_tasks obtain k w' where
    k: "k < nat (max_epoch (example_config\<lparr>tasks := []\<rparr>))"
    and ek: "epochs example_collaborators (example_config\<lparr>tasks := []\<rparr>) k
               \<lparr>the_trainer = example_trainer, rng = 0, trace = startup_calls\<rparr> = Some (Inr w')"
    and l: "while_steps example_collaborators (example_config\<lparr>tasks := []\<rparr>)
              (start_epoch w') = None"
    by blast
  from k me(2) have "k = 0" by simp
  with ek have "w' = example_start" by (simp add: example_start_def)
  with l have c: "while_steps example_collaborators (example_config\<lparr>tasks := []\<rparr>)
     (start_epoch example_start) = None"
    by simp
  from a b c e ne show ?thesis
    using example_startup_eval example_startup example_scores_eval example_main
      example_scores_plain example_startup_no_tasks example_main_no_tasks
    by simp
qed

text \<open>
  Claim C6 as stated fails when the evaluator returns a score that \<^verbatim>\<open>json.dumps\<close> does
  not accept. With a single score that is a NumPy \<^verbatim>\<open>float32\<close> the line of the metric is
  logged, line 161 raises a type error, the line with the whole mapping is not logged and
  \<^verbatim>\<open>exit()\<close> is not reached.
\<close>

theorem float32_score_counterexample:
  "startup example_float32 (example_config\<lparr>eval_only := True\<rparr>) =
     Inr (example_config\<lparr>eval_only := True\<rparr>, example_trainer, startup_calls) \<and>
   run_all_evals example_float32 example_trainer =
     Inr ([(''valid_acc'', NumpyFloat32 1)], example_trainer) \<and>
   main example_float32 (example_config\<lparr>eval_only := True\<rparr>) 0 =
     Some (Inl (Raised TypeError,
       startup_calls @ [RunAllEvals, LogInfo (MetricLine ''valid_acc'' (NumpyFloat32 1))]))"
  by code_simp

text \<open>
  Claim C7. Once the three initialisation calls have returned, a configuration that asks
  for the CPU and for several processes, or for an accelerator where none is available,
  stops the program with an assertion error after exactly those three calls: the
  environment, the modules and the trainer are never built, and whatever their builders
  are makes no difference to the run.
\<close>

theorem device_check_fails_fast:
  assumes "init_distributed_mode X params = Inr p1"
    and "initialize_exp X p1 = Inr p2"
    and "init_signal_handler X = Inr u"
    and "(cpu p2 \<and> multi_gpu p2) \<or> (\<not> cpu p2 \<and> \<not> cuda_is_available X)"
  shows "main X params g =
           Some (Inl (Raised AssertionError,
                      [InitDistributedMode, InitializeExp, InitSignalHandler])) \<and>
         main (X\<lparr>build_env := be, build_modules := bm, new_trainer := nt\<rparr>) params g =
           main X params g"
proof -
  have s: "startup Y params =
      Inl (Raised AssertionError, [InitDistributedMode, InitializeExp, InitSignalHandler])"
    if "init_distributed_mode Y = init_distributed_mode X"
      "initialize_exp Y = initialize_exp X"
      "init_signal_handler Y = init_signal_handler X"
      "cuda_is_available Y = cuda_is_available X"
    for Y :: "('a, 'b, 'c, 'd) collaborators"
    using assms that by (auto simp: startup_def Let_def)
  have "startup X params =
      Inl (Raised AssertionError, [InitDistributedMode, InitializeExp, InitSignalHandler])"
    by (rule s) simp_all
  moreover have "startup (X\<lparr>build_env := be, build_modules := bm, new_trainer := nt\<rparr>) params =
      Inl (Raised AssertionError, [InitDistributedMode, InitializeExp, InitSignalHandler])"
    by (rule s) simp_all
  ultimately show ?thesis by (simp add: main_def)
qed

lemma example_multi_gpu_init:
  "init_distributed_mode example_multi_gpu (example_config\<lparr>cpu := True\<rparr>) =
     Inr (example_config\<lparr>cpu := True, multi_gpu := True, is_master := True\<rparr>)"
  "initialize_exp example_multi_gpu
       (example_config\<lparr>cpu := True, multi_gpu := True, is_master := True\<rparr>) =
     Inr (example_config\<lparr>cpu := True, multi_gpu := True, is_master := True\<rparr>)"
  "init_signal_handler example_multi_gpu = Inr ()"
  by (simp_all add: example_multi_gpu_def example_collaborators_def example_config_def)

text \<open>Scenario 4 of the spec: the CPU is asked for and start-up finds several processes.\<close>

theorem device_check_fails_fast_witness:
  "init_distributed_mode example_multi_gpu (example_config\<lparr>cpu := True\<rparr>) =
     Inr (example_config\<lparr>cpu := True, multi_gpu := True, is_master := True\<rparr>) \<and>
   initialize_exp example_multi_gpu
       (example_config\<lparr>cpu := True, multi_gpu := True, is_master := True\<rparr>) =
     Inr (example_config\<lparr>cpu := True, multi_gpu := True, is_master := True\<rparr>) \<and>
   init_signal_handler example_multi_gpu = Inr () \<and>
   cpu (example_config\<lparr>cpu := True, multi_gpu := True, is_master := True\<rparr>) \<and>
   multi_gpu (example_config\<lparr>cpu := True, multi_gpu := True, is_master := True\<rparr>) \<and>
   main example_multi_gpu (example_config\<lparr>cpu := True\<rparr>) 0 =
     Some (Inl (Raised AssertionError,
                [InitDistributedMode, InitializeExp, InitSignalHandler]))"
proof -
  have c: "(cpu (example_config\<lparr>cpu := True, multi_gpu := True, is_master := True\<rparr>) \<and>
            multi_gpu (example_config\<lparr>cpu := True, multi_gpu := True, is_master := True\<rparr>)) \<or>
           (\<not> cpu (example_config\<lparr>cpu := True, multi_gpu := True, is_master := True\<rparr>) \<and>
            \<not> cuda_is_available example_multi_gpu)"
    by simp
  from device_check_fails_fast [OF example_multi_gpu_init c, where g = 0]
  show ?thesis using example_multi_gpu_init by simp
qed

text \<open>
  Claim C8. On a process that is not the master the end of an epoch is the log line alone:
  the trainer is left as it was, and the epoch loop adds no evaluation pass, no best-model
  save, no periodic save and no end-of-epoch update to the calls made. On the master, when
  the end of an epoch returns, the evaluation has returned a score mapping, the best-model
  save has been applied to the trainer the evaluation left, the periodic save to the trainer
  the best-model save left, the end-of-epoch update to the trainer the periodic save left,
  each once and in this order, and the update's trainer is the one the epoch ends with; a
  call among them that stops the program stops the epoch there, and so does a score that a
  log line cannot take. In an epoch that is completed these are the only calls of the four
  kinds. Over a run, the calls of the four kinds on the master are one block of the four
  for each completed epoch, followed by the first calls of one more block when the run
  stopped inside an epoch; this holds of the first epochs of a run whatever happens after
  them.
\<close>

theorem boundary_calls_master_only:
  "(\<not> is_master p \<longrightarrow>
      finish_epoch X p w =
        Inr (w\<lparr>trace := trace w @ [LogInfo (EndOfEpoch (epoch (the_trainer w)))]\<rparr>) \<and>
      (\<forall>r. epochs X p n w = Some r \<longrightarrow>
         filter master_only (out_trace r) = filter master_only (trace w))) \<and>
   (is_master p \<longrightarrow>
      (\<forall>w'. finish_epoch X p w = Inr w' \<longrightarrow>
         (\<exists>sc t1 t2 t3.
            run_all_evals X (the_trainer w) = Inr (sc, t1) \<and>
            trainer_save_best_model X sc t1 = Inr t2 \<and>
            trainer_save_periodic X t2 = Inr t3 \<and>
            trainer_end_epoch X sc t3 = Inr (the_trainer w') \<and>
            trace w' = trace w @ LogInfo (EndOfEpoch (epoch (the_trainer w))) #
                         evaluation_calls sc @ boundary_updates sc)) \<and>
      (\<forall>sc t1. run_all_evals X (the_trainer w) = Inr (sc, t1) \<and> plain_scores sc \<longrightarrow>
         finish_epoch X p w =
           (case trainer_save_best_model X sc t1 of
              Inl s \<Rightarrow>
                Inl (s, trace w @ LogInfo (EndOfEpoch (epoch (the_trainer w))) #
                          evaluation_calls sc @ [SaveBestModel sc])
            | Inr t2 \<Rightarrow>
                (case trainer_save_periodic X t2 of
                   Inl s \<Rightarrow>
                     Inl (s, trace w @ LogInfo (EndOfEpoch (epoch (the_trainer w))) #
                               evaluation_calls sc @ [SaveBestModel sc, SavePeriodic])
                 | Inr t3 \<Rightarrow>
                     (case trainer_end_epoch X sc t3 of
                        Inl s \<Rightarrow>
                          Inl (s, trace w @ LogInfo (EndOfEpoch (epoch (the_trainer w))) #
                                    evaluation_calls sc @ boundary_updates sc)
                      | Inr t4 \<Rightarrow>
                          Inr \<lparr>the_trainer = t4, rng = rng w,
                               trace = trace w @ LogInfo (EndOfEpoch (epoch (the_trainer w))) #
                                         evaluation_calls sc @ boundary_updates sc\<rparr>)))) \<and>
      (\<forall>sc t1. run_all_evals X (the_trainer w) = Inr (sc, t1) \<and> \<not> plain_scores sc \<longrightarrow>
         (\<exists>lines. finish_epoch X p w =
                     Inl (Raised TypeError,
                          trace w @ LogInfo (EndOfEpoch (epoch (the_trainer w))) # RunAllEvals #
                            LogInfo (ScoresLine sc) # lines) \<and>
            prefix lines (metric_lines sc))) \<and>
      (\<forall>s. run_all_evals X (the_trainer w) = Inl s \<longrightarrow>
         finish_epoch X p w =
           Inl (s, trace w @ [LogInfo (EndOfEpoch (epoch (the_trainer w))), RunAllEvals])) \<and>
      (\<forall>r. epochs X p n w = Some r \<longrightarrow>
         (\<exists>scs rest sc.
            filter master_only (out_trace r) =
              filter master_only (trace w) @ concat (map boundary_calls scs) @ rest \<and>
            prefix rest (boundary_calls sc) \<and>
            (case r of Inl s \<Rightarrow> length scs < n | Inr w' \<Rightarrow> length scs = n \<and> rest = [])))) \<and>
   (\<forall>w'. one_epoch X p w = Some (Inr w') \<longrightarrow>
      (\<exists>w1. while_steps X p (start_epoch w) = Some (Inr w1) \<and>
         filter master_only (trace w1) = filter master_only (trace w) \<and>
         finish_epoch X p w1 = Inr w')) \<and>
   (\<forall>k w'. k \<le> n \<and> epochs X p k w = Some (Inr w') \<longrightarrow>
      epochs X p n w = epochs X p (n - k) w' \<and>
      (\<not> is_master p \<longrightarrow> filter master_only (trace w') = filter master_only (trace w)) \<and>
      (is_master p \<longrightarrow>
         (\<exists>scs. length scs = k \<and>
            filter master_only (trace w') =
              filter master_only (trace w) @ concat (map boundary_calls scs))))"
proof -
  have worker: "\<not> is_master p \<longrightarrow>
      finish_epoch X p w =
        Inr (w\<lparr>trace := trace w @ [LogInfo (EndOfEpoch (epoch (the_trainer w)))]\<rparr>) \<and>
      (\<forall>r. epochs X p n w = Some r \<longrightarrow>
         filter master_only (out_trace r) = filter master_only (trace w))"
    using finish_epoch_worker [of p X w] epochs_other [of p X n w] by blast
  have m1: "\<forall>w'. finish_epoch X p w = Inr w' \<longrightarrow>
         (\<exists>sc t1 t2 t3.
            run_all_evals X (the_trainer w) = Inr (sc, t1) \<and>
            trainer_save_best_model X sc t1 = Inr t2 \<and>
            trainer_save_periodic X t2 = Inr t3 \<and>
            trainer_end_epoch X sc t3 = Inr (the_trainer w') \<and>
            trace w' = trace w @ LogInfo (EndOfEpoch (epoch (the_trainer w))) #
                         evaluation_calls sc @ boundary_updates sc)"
    if "is_master p"
    using finish_epoch_Inr [OF that, of X w] by blast
  have m2: "\<forall>sc t1. run_all_evals X (the_trainer w) = Inr (sc, t1) \<and> plain_scores sc \<longrightarrow>
         finish_epoch X p w =
           (case trainer_save_best_model X sc t1 of
              Inl s \<Rightarrow>
                Inl (s, trace w @ LogInfo (EndOfEpoch (epoch (the_trainer w))) #
                          evaluation_calls sc @ [SaveBestModel sc])
            | Inr t2 \<Rightarrow>
                (case trainer_save_periodic X t2 of
                   Inl s \<Rightarrow>
                     Inl (s, trace w @ LogInfo (EndOfEpoch (epoch (the_trainer w))) #
                               evaluation_calls sc @ [SaveBestModel sc, SavePeriodic])
                 | Inr t3 \<Rightarrow>
                     (case trainer_end_epoch X sc t3 of
                        Inl s \<Rightarrow>
                          Inl (s, trace w @ LogInfo (EndOfEpoch (epoch (the_trainer w))) #
                                    evaluation_calls sc @ boundary_updates sc)
                      | Inr t4 \<Rightarrow>
                          Inr \<lparr>the_trainer = t4, rng = rng w,
                               trace = trace w @ LogInfo (EndOfEpoch (epoch (the_trainer w))) #
                                         evaluation_calls sc @ boundary_updates sc\<rparr>)))"
    if "is_master p"
    using finish_epoch_plain [OF that, of X w] by blast
  have m3: "\<forall>sc t1. run_all_evals X (the_trainer w) = Inr (sc, t1) \<and> \<not> plain_scores sc \<longrightarrow>
         (\<exists>lines. finish_epoch X p w =
                     Inl (Raised TypeError,
                          trace w @ LogInfo (EndOfEpoch (epoch (the_trainer w))) # RunAllEvals #
                            LogInfo (ScoresLine sc) # lines) \<and>
            prefix lines (metric_lines sc))"
    if "is_master p"
    using finish_epoch_not_plain [OF that, of X w] by blast
  have m4: "\<forall>s. run_all_evals X (the_trainer w) = Inl s \<longrightarrow>
         finish_epoch X p w =
           Inl (s, trace w @ [LogInfo (EndOfEpoch (epoch (the_trainer w))), RunAllEvals])"
    if "is_master p"
    using that by (simp add: finish_epoch_def Let_def end_of_epoch_def record_call_def)
  have m5: "\<forall>r. epochs X p n w = Some r \<longrightarrow>
         (\<exists>scs rest sc.
            filter master_only (out_trace r) =
              filter master_only (trace w) @ concat (map boundary_calls scs) @ rest \<and>
            prefix rest (boundary_calls sc) \<and>
            (case r of Inl s \<Rightarrow> length scs < n | Inr w' \<Rightarrow> length scs = n \<and> rest = []))"
    if "is_master p"
    using epochs_master [OF that, of X n w] by blast
  have master: "is_master p \<longrightarrow>
      (\<forall>w'. finish_epoch X p w = Inr w' \<longrightarrow>
         (\<exists>sc t1 t2 t3.
            run_all_evals X (the_trainer w) = Inr (sc, t1) \<and>
            trainer_save_best_model X sc t1 = Inr t2 \<and>
            trainer_save_periodic X t2 = Inr t3 \<and>
            trainer_end_epoch X sc t3 = Inr (the_trainer w') \<and>
            trace w' = trace w @ LogInfo (EndOfEpoch (epoch (the_trainer w))) #
                         evaluation_calls sc @ boundary_updates sc)) \<and>
      (\<forall>sc t1. run_all_evals X (the_trainer w) = Inr (sc, t1) \<and> plain_scores sc \<longrightarrow>
         finish_epoch X p w =
           (case trainer_save_best_model X sc t1 of
              Inl s \<Rightarrow>
                Inl (s, trace w @ LogInfo (EndOfEpoch (epoch (the_trainer w))) #
                          evaluation_calls sc @ [SaveBestModel sc])
            | Inr t2 \<Rightarrow>
                (case trainer_save_periodic X t2 of
                   Inl s \<Rightarrow>
                     Inl (s, trace w @ LogInfo (EndOfEpoch (epoch (the_trainer w))) #
                               evaluation_calls sc @ [SaveBestModel sc, SavePeriodic])
                 | Inr t3 \<Rightarrow>
                     (case trainer_end_epoch X sc t3 of
                        Inl s \<Rightarrow>
                          Inl (s, trace w @ LogInfo (EndOfEpoch (epoch (the_trainer w))) #
                                    evaluation_calls sc @ boundary_updates sc)
                      | Inr t4 \<Rightarrow>
                          Inr \<lparr>the_trainer = t4, rng = rng w,
                               trace = trace w @ LogInfo (EndOfEpoch (epoch (the_trainer w))) #
                                         evaluation_calls sc @ boundary_updates sc\<rparr>)))) \<and>
      (\<forall>sc t1. run_all_evals X (the_trainer w) = Inr (sc, t1) \<and> \<not> plain_scores sc \<longrightarrow>
         (\<exists>lines. finish_epoch X p w =
                     Inl (Raised TypeError,
                          trace w @ LogInfo (EndOfEpoch (epoch (the_trainer w))) # RunAllEvals #
                            LogInfo (ScoresLine sc) # lines) \<and>
            prefix lines (metric_lines sc))) \<and>
      (\<forall>s. run_all_evals X (the_trainer w) = Inl s \<longrightarrow>
         finish_epoch X p w =
           Inl (s, trace w @ [LogInfo (EndOfEpoch (epoch (the_trainer w))), RunAllEvals])) \<and>
      (\<forall>r. epochs X p n w = Some r \<longrightarrow>
         (\<exists>scs rest sc.
            filter master_only (out_trace r) =
              filter master_only (trace w) @ concat (map boundary_calls scs) @ rest \<and>
            prefix rest (boundary_calls sc) \<and>
            (case r of Inl s \<Rightarrow> length scs < n | Inr w' \<Rightarrow> length scs = n \<and> rest = [])))"
  proof
    assume m: "is_master p"
    from m1 [OF m] m2 [OF m] m3 [OF m] m4 [OF m] m5 [OF m]
    show "(\<forall>w'. finish_epoch X p w = Inr w' \<longrightarrow>
         (\<exists>sc t1 t2 t3.
            run_all_evals X (the_trainer w) = Inr (sc, t1) \<and>
            trainer_save_best_model X sc t1 = Inr t2 \<and>
            trainer_save_periodic X t2 = Inr t3 \<and>
            trainer_end_epoch X sc t3 = Inr (the_trainer w') \<and>
            trace w' = trace w @ LogInfo (EndOfEpoch (epoch (the_trainer w))) #
                         evaluation_calls sc @ boundary_updates sc)) \<and>
      (\<forall>sc t1. run_all_evals X (the_trainer w) = Inr (sc, t1) \<and> plain_scores sc \<longrightarrow>
         finish_epoch X p w =
           (case trainer_save_best_model X sc t1 of
              Inl s \<Rightarrow>
                Inl (s, trace w @ LogInfo (EndOfEpoch (epoch (the_trainer w))) #
                          evaluation_calls sc @ [SaveBestModel sc])
            | Inr t2 \<Rightarrow>
                (case trainer_save_periodic X t2 of
                   Inl s \<Rightarrow>
                     Inl (s, trace w @ LogInfo (EndOfEpoch (epoch (the_trainer w))) #
                               evaluation_calls sc @ [SaveBestModel sc, SavePeriodic])
                 | Inr t3 \<Rightarrow>
                     (case trainer_end_epoch X sc t3 of
                        Inl s \<Rightarrow>
                          Inl (s, trace w @ LogInfo (EndOfEpoch (epoch (the_trainer w))) #
                                    evaluation_calls sc @ boundary_updates sc)
                      | Inr t4 \<Rightarrow>
                          Inr \<lparr>the_trainer = t4, rng = rng w,
                               trace = trace w @ LogInfo (EndOfEpoch (epoch (the_trainer w))) #
                                         evaluation_calls sc @ boundary_updates sc\<rparr>)))) \<and>
      (\<forall>sc t1. run_all_evals X (the_trainer w) = Inr (sc, t1) \<and> \<not> plain_scores sc \<longrightarrow>
         (\<exists>lines. finish_epoch X p w =
                     Inl (Raised TypeError,
                          trace w @ LogInfo (EndOfEpoch (epoch (the_trainer w))) # RunAllEvals #
                            LogInfo (ScoresLine sc) # lines) \<and>
            prefix lines (metric_lines sc))) \<and>
      (\<forall>s. run_all_evals X (the_trainer w) = Inl s \<longrightarrow>
         finish_epoch X p w =
           Inl (s, trace w @ [LogInfo (EndOfEpoch (epoch (the_trainer w))), RunAllEvals])) \<and>
      (\<forall>r. epochs X p n w = Some r \<longrightarrow>
         (\<exists>scs rest sc.
            filter master_only (out_trace r) =
              filter master_only (trace w) @ concat (map boundary_calls scs) @ rest \<and>
            prefix rest (boundary_calls sc) \<and>
            (case r of Inl s \<Rightarrow> length scs < n | Inr w' \<Rightarrow> length scs = n \<and> rest = [])))"
      by (intro conjI)
  qed
  have completed: "\<forall>w'. one_epoch X p w = Some (Inr w') \<longrightarrow>
      (\<exists>w1. while_steps X p (start_epoch w) = Some (Inr w1) \<and>
         filter master_only (trace w1) = filter master_only (trace w) \<and>
         finish_epoch X p w1 = Inr w')"
  proof (intro allI impI)
    fix w' assume o: "one_epoch X p w = Some (Inr w')"
    have ns: "\<And>e. loop_call e \<Longrightarrow> \<not> master_only e"
      by (erule loop_call.elims) simp_all
    from one_epoch_cases [OF o] obtain w1 where
      l: "while_steps X p (start_epoch w) = Some (Inr w1)"
      and f: "finish_epoch X p w1 = Inr w'"
      by auto
    from while_steps_filter [OF l ns]
    have "filter master_only (trace w1) = filter master_only (trace w)"
      by (simp add: start_epoch_simps out_trace_simps)
    with l f show "\<exists>w1. while_steps X p (start_epoch w) = Some (Inr w1) \<and>
         filter master_only (trace w1) = filter master_only (trace w) \<and>
         finish_epoch X p w1 = Inr w'"
      by blast
  qed
  have first: "\<forall>k w'. k \<le> n \<and> epochs X p k w = Some (Inr w') \<longrightarrow>
      epochs X p n w = epochs X p (n - k) w' \<and>
      (\<not> is_master p \<longrightarrow> filter master_only (trace w') = filter master_only (trace w)) \<and>
      (is_master p \<longrightarrow>
         (\<exists>scs. length scs = k \<and>
            filter master_only (trace w') =
              filter master_only (trace w) @ concat (map boundary_calls scs)))"
  proof (intro allI impI conjI)
    fix k w' assume a: "k \<le> n \<and> epochs X p k w = Some (Inr w')"
    then have e: "epochs X p k w = Some (Inr w')" and k: "k \<le> n" by simp_all
    from epochs_add [of X p k "n - k" w] e k
    show "epochs X p n w = epochs X p (n - k) w'" by simp
    {
      assume "\<not> is_master p"
      from epochs_other [OF this e]
      show "filter master_only (trace w') = filter master_only (trace w)"
        by (simp add: out_trace_simps)
    }
    {
      assume "is_master p"
      from epochs_master [OF this e]
      show "\<exists>scs. length scs = k \<and>
            filter master_only (trace w') =
              filter master_only (trace w) @ concat (map boundary_calls scs)"
        by (auto simp: out_trace_simps)
    }
  qed
  from worker master completed first show ?thesis by (intro conjI)
qed

lemma example_epoch_loop:
  "while_steps example_collaborators example_config (start_epoch example_start) =
     Some (Inr example_epoch_loop_end)"
  by code_simp

lemma example_finish_epoch:
  "finish_epoch example_collaborators example_config example_epoch_loop_end = Inr example_final"
  by code_simp

lemma example_loop_scores:
  "run_all_evals example_collaborators (the_trainer example_epoch_loop_end) =
     Inr (example_scores, the_trainer example_epoch_loop_end)"
  by code_simp

lemma example_float32_scores:
  "run_all_evals example_float32 (the_trainer example_epoch_loop_end) =
     Inr ([(''valid_acc'', NumpyFloat32 1)], the_trainer example_epoch_loop_end)"
  by code_simp

lemma example_float32_not_plain: "\<not> plain_scores [(''valid_acc'', NumpyFloat32 1)]"
  by (simp add: plain_scores_def)

text \<open>
  The example epoch on the master and on a process that is not the master, and the end of
  that epoch on the master with an evaluator whose score is a NumPy \<^verbatim>\<open>float32\<close>, where
  the run stops before the checkpoint writes.
\<close>

theorem boundary_calls_master_only_witness:
  "is_master example_config \<and>
   while_steps example_collaborators example_config (start_epoch example_start) =
     Some (Inr example_epoch_loop_end) \<and>
   finish_epoch example_collaborators example_config example_epoch_loop_end =
     Inr example_final \<and>
   run_all_evals example_collaborators (the_trainer example_epoch_loop_end) =
     Inr (example_scores, the_trainer example_epoch_loop_end) \<and>
   plain_scores example_scores \<and>
   trace example_final =
     trace example_epoch_loop_end @ LogInfo (EndOfEpoch 0) #
       evaluation_calls example_scores @ boundary_updates example_scores \<and>
   one_epoch example_collaborators example_config example_start = Some (Inr example_final) \<and>
   epochs example_collaborators example_config 1 example_start = Some (Inr example_final) \<and>
   filter master_only (trace example_final) = boundary_calls example_scores \<and>
   \<not> is_master (example_config\<lparr>is_master := False\<rparr>) \<and>
   finish_epoch example_collaborators (example_config\<lparr>is_master := False\<rparr>)
       example_epoch_loop_end =
     Inr (example_epoch_loop_end
            \<lparr>trace := trace example_epoch_loop_end @ [LogInfo (EndOfEpoch 0)]\<rparr>) \<and>
   epochs example_collaborators (example_config\<lparr>is_master := False\<rparr>) 1 example_start =
     Some (Inr example_final_worker) \<and>
   filter master_only (trace example_final_worker) = [] \<and>
   run_all_evals example_float32 (the_trainer example_epoch_loop_end) =
     Inr ([(''valid_acc'', NumpyFloat32 1)], the_trainer example_epoch_loop_end) \<and>
   \<not> plain_scores [(''valid_acc'', NumpyFloat32 1)] \<and>
   (\<exists>lines. finish_epoch example_float32 example_config example_epoch_loop_end =
      Inl (Raised TypeError,
           trace example_epoch_loop_end @ LogInfo (EndOfEpoch 0) # RunAllEvals #
             LogInfo (ScoresLine [(''valid_acc'', NumpyFloat32 1)]) # lines))"
proof -
  note t5 = boundary_calls_master_only
    [of example_config example_float32 example_epoch_loop_end 1]
  note t1 = boundary_calls_master_only
    [of example_config example_collaborators example_start 1]
  note t2 = boundary_calls_master_only
    [of "example_config\<lparr>is_master := False\<rparr>" example_collaborators example_start 1]
  note t3 = boundary_calls_master_only
    [of example_config example_collaborators example_epoch_loop_end 1]
  note t4 = boundary_calls_master_only
    [of "example_config\<lparr>is_master := False\<rparr>" example_collaborators
        example_epoch_loop_end 1]
  have m: "is_master example_config" by (simp add: example_config_def)
  have nm: "\<not> is_master (example_config\<lparr>is_master := False\<rparr>)" by simp
  have s0: "filter master_only (trace example_start) = []"
    by (simp add: example_start_def startup_calls_def)
  have ep: "epoch (the_trainer example_epoch_loop_end) = 0"
    by (simp add: example_epoch_loop_end_def example_trainer_def)
  from t1 [THEN conjunct2, THEN conjunct1] m example_epochs obtain scs rest where
    f: "filter master_only (out_trace (Inr example_final :: (unit, nat) outcome)) =
       filter master_only (trace example_start) @ concat (map boundary_calls scs) @ rest"
    and l: "length scs = 1 \<and> rest = []"
    by fastforce
  from l obtain sc where sc: "scs = [sc]" by (cases scs) auto
  from f l sc s0 have g: "filter master_only (trace example_final) = boundary_calls sc"
    by (simp add: out_trace_simps)
  have a: "filter master_only (trace example_final) = boundary_calls example_scores"
    by (simp add: example_final_def startup_calls_def example_loop_calls_def boundary_calls_def)
  from t3 [THEN conjunct2, THEN conjunct1] m example_finish_epoch obtain sc' t1' where
    r: "run_all_evals example_collaborators (the_trainer example_epoch_loop_end) = Inr (sc', t1')"
    and tr: "trace example_final =
       trace example_epoch_loop_end @
         LogInfo (EndOfEpoch (epoch (the_trainer example_epoch_loop_end))) #
         evaluation_calls sc' @ boundary_updates sc'"
    by blast
  from r example_loop_scores have "sc' = example_scores" by simp
  with tr ep have c: "trace example_final =
     trace example_epoch_loop_end @ LogInfo (EndOfEpoch 0) #
       evaluation_calls example_scores @ boundary_updates example_scores"
    by simp
  from t2 [THEN conjunct1] nm example_epochs_worker
  have "filter master_only (out_trace (Inr example_final_worker :: (unit, nat) outcome)) =
          filter master_only (trace example_start)"
    by blast
  with s0 have b: "filter master_only (trace example_final_worker) = []"
    by (simp add: out_trace_simps)
  from t4 [THEN conjunct1] nm ep
  have d: "finish_epoch example_collaborators (example_config\<lparr>is_master := False\<rparr>)
       example_epoch_loop_end =
     Inr (example_epoch_loop_end
            \<lparr>trace := trace example_epoch_loop_end @ [LogInfo (EndOfEpoch 0)]\<rparr>)"
    by simp
  from t1 example_one_epoch obtain w1 where
    "while_steps example_collaborators example_config (start_epoch example_start) =
       Some (Inr w1)"
    and f1: "finish_epoch example_collaborators example_config w1 = Inr example_final"
    by blast
  with example_epoch_loop have "w1 = example_epoch_loop_end" by simp
  with f1 have h: "finish_epoch example_collaborators example_config example_epoch_loop_end =
     Inr example_final"
    by simp
  from t5 [THEN conjunct2, THEN conjunct1] m example_float32_scores example_float32_not_plain
  obtain lines where
    "finish_epoch example_float32 example_config example_epoch_loop_end =
       Inl (Raised TypeError,
            trace example_epoch_loop_end @
              LogInfo (EndOfEpoch (epoch (the_trainer example_epoch_loop_end))) # RunAllEvals #
              LogInfo (ScoresLine [(''valid_acc'', NumpyFloat32 1)]) # lines)"
    by blast
  with ep have i: "\<exists>lines. finish_epoch example_float32 example_config example_epoch_loop_end =
      Inl (Raised TypeError,
           trace example_epoch_loop_end @ LogInfo (EndOfEpoch 0) # RunAllEvals #
             LogInfo (ScoresLine [(''valid_acc'', NumpyFloat32 1)]) # lines)"
    by auto
  from a b c d m g h i show ?thesis
    using example_epochs example_epochs_worker example_loop_scores
      example_scores_plain example_one_epoch example_epoch_loop
      example_float32_scores example_float32_not_plain
    by simp
qed

lemma task_step_untouched:
  assumes "counter_untouched X" and "task_step X p i w = Inr w'"
  shows "n_equations (the_trainer w') = n_equations (the_trainer w) \<and>
         epoch_size (the_trainer w') = epoch_size (the_trainer w)"
proof -
  let ?task = "tasks p ! i"
  from assms(2) have i: "i < length (tasks p)"
    by (auto simp: task_step_def split: if_splits)
  from assms(2) i obtain w1 where
    w1: "(if export_data p
           then call_trainer (ExportData ?task) (trainer_export_data X ?task) w
           else call_trainer (EncDecStep ?task) (trainer_enc_dec_step X ?task) w) = Inr w1"
    and w': "call_trainer Iter (trainer_iter X) w1 = Inr w'"
    by (auto simp: task_step_def Let_def split: sum.splits)
  from w1 have "trainer_export_data X ?task (the_trainer w) = Inr (the_trainer w1) \<or>
                trainer_enc_dec_step X ?task (the_trainer w) = Inr (the_trainer w1)"
    by (auto dest: call_trainer_counter split: if_splits)
  with assms(1) have a: "n_equations (the_trainer w1) = n_equations (the_trainer w) \<and>
      epoch_size (the_trainer w1) = epoch_size (the_trainer w)"
    unfolding counter_untouched_def by blast
  from call_trainer_counter [OF w'] assms(1)
  have b: "n_equations (the_trainer w') = n_equations (the_trainer w1) \<and>
      epoch_size (the_trainer w') = epoch_size (the_trainer w1)"
    unfolding counter_untouched_def by blast
  from a b show ?thesis by simp
qed

lemma task_steps_untouched:
  assumes "counter_untouched X"
  shows "task_steps X p ids w = Inr w' \<Longrightarrow>
         n_equations (the_trainer w') = n_equations (the_trainer w) \<and>
         epoch_size (the_trainer w') = epoch_size (the_trainer w)"
proof (induction ids arbitrary: w)
  case Nil
  then show ?case by simp
next
  case (Cons i ids)
  from Cons.prems obtain w1 where s: "task_step X p i w = Inr w1"
    and r: "task_steps X p ids w1 = Inr w'"
    by (auto split: sum.splits)
  from task_step_untouched [OF assms s] Cons.IH [OF r] show ?case by simp
qed

lemma inner_step_untouched:
  assumes "counter_untouched X" and "inner_step X p w = Inr w'"
  shows "n_equations (the_trainer w') = n_equations (the_trainer w) \<and>
         epoch_size (the_trainer w') = epoch_size (the_trainer w)"
proof -
  obtain ids g' where pg: "permutation (next_draw X) (length (tasks p)) (rng w) = (ids, g')"
    by (cases "permutation (next_draw X) (length (tasks p)) (rng w)")
  from assms(2) pg
  have "task_steps X p ids (record_call (Permutation ids) (w\<lparr>rng := g'\<rparr>)) = Inr w'"
    by (simp add: inner_step_def)
  from task_steps_untouched [OF assms(1) this] show ?thesis
    by (simp add: record_call_def)
qed

lemma while_steps_untouched_aux:
  assumes "while_steps X p w = Some r"
  shows "counter_untouched X \<and> n_equations (the_trainer w) < epoch_size (the_trainer w) \<longrightarrow>
           (\<forall>w'. r \<noteq> Inr w')"
proof (rule while_steps.raw_induct
    [where P = "\<lambda>X p w r. counter_untouched X \<and>
        n_equations (the_trainer w) < epoch_size (the_trainer w) \<longrightarrow> (\<forall>w'. r \<noteq> Inr w')",
      OF _ assms], goal_cases)
  case (1 f X p w r)
  show ?case
  proof (intro impI allI notI)
    fix w'
    assume a: "counter_untouched X \<and> n_equations (the_trainer w) < epoch_size (the_trainer w)"
      and r: "r = Inr w'"
    from 1(2) a r obtain w1 where s: "inner_step X p w = Inr w1" and l: "f X p w1 = Some (Inr w')"
      by (auto split: sum.splits)
    from inner_step_untouched [OF _ s] a
    have "n_equations (the_trainer w1) < epoch_size (the_trainer w1)" by simp
    with 1(1) [OF l] a show False by simp
  qed
qed

lemma while_steps_untouched:
  assumes "counter_untouched X" and "n_equations (the_trainer w) < epoch_size (the_trainer w)"
  shows "while_steps X p w \<noteq> Some (Inr w')"
proof
  assume "while_steps X p w = Some (Inr w')"
  from while_steps_untouched_aux [OF this] assms show False by simp
qed

lemma example_idle_untouched: "counter_untouched example_idle"
  by (auto simp: counter_untouched_def example_idle_def example_collaborators_def)

text \<open>
  Claim C10, as amended. With an empty task list and the counter below the epoch size, an
  inner step draws the empty order, makes no work-unit and no bookkeeping call and leaves
  the trainer as it was, and the \<^verbatim>\<open>while\<close> loop never ends; so with an empty task list
  and a positive epoch size an epoch, which starts with the counter at zero, never ends, and
  a loop that is entered with the counter below the epoch size and ends has a task list
  that is not empty. A loop entered with the counter at or above the epoch size ends at
  once, whatever the task list. A loop that ends normally ends with the counter at or above
  the epoch size, and with a trainer whose calls never move the counter or the epoch size a
  loop entered below the epoch size never ends normally. With a non-empty task list and a
  trainer whose bookkeeping call raises the counter (a work unit not lowering it, the epoch
  size left alone) the loop ends.
\<close>

theorem while_loop_termination:
  "(tasks p = [] \<and> n_equations (the_trainer w) < epoch_size (the_trainer w) \<longrightarrow>
      inner_step X p w = Inr (w\<lparr>trace := trace w @ [Permutation []]\<rparr>) \<and>
      while_steps X p w = None) \<and>
   (tasks p = [] \<and> 0 < epoch_size (the_trainer w) \<longrightarrow>
      n_equations (the_trainer (start_epoch w)) = 0 \<and>
      one_epoch X p w = None \<and> epochs X p (Suc n) w = None) \<and>
   (counter_untouched X \<and> n_equations (the_trainer w) < epoch_size (the_trainer w) \<longrightarrow>
      (\<forall>w'. while_steps X p w \<noteq> Some (Inr w'))) \<and>
   (counter_advances X \<and> tasks p \<noteq> [] \<longrightarrow> (\<exists>r. while_steps X p w = Some r)) \<and>
   ((\<exists>r. while_steps X p w = Some r) \<and>
    n_equations (the_trainer w) < epoch_size (the_trainer w) \<longrightarrow> tasks p \<noteq> []) \<and>
   (epoch_size (the_trainer w) \<le> n_equations (the_trainer w) \<longrightarrow>
      while_steps X p w = Some (Inr w)) \<and>
   (\<forall>w'. while_steps X p w = Some (Inr w') \<longrightarrow>
      epoch_size (the_trainer w') \<le> n_equations (the_trainer w'))"
proof (intro conjI impI allI)
  assume a: "tasks p = [] \<and> n_equations (the_trainer w) < epoch_size (the_trainer w)"
  then show "inner_step X p w = Inr (w\<lparr>trace := trace w @ [Permutation []]\<rparr>)"
    by (simp add: inner_step_no_tasks)
  from a show "while_steps X p w = None"
    by (simp add: while_steps_no_tasks)
next
  assume a: "tasks p = [] \<and> 0 < epoch_size (the_trainer w)"
  show "n_equations (the_trainer (start_epoch w)) = 0"
    by (simp add: start_epoch_simps)
  from a have "while_steps X p (start_epoch w) = None"
    by (intro while_steps_no_tasks) (simp_all add: start_epoch_simps)
  then show o: "one_epoch X p w = None"
    by (simp add: one_epoch_def)
  then show "epochs X p (Suc n) w = None" by simp
next
  fix w'
  assume "counter_untouched X \<and> n_equations (the_trainer w) < epoch_size (the_trainer w)"
  then show "while_steps X p w \<noteq> Some (Inr w')"
    by (simp add: while_steps_untouched)
next
  assume "counter_advances X \<and> tasks p \<noteq> []"
  then show "\<exists>r. while_steps X p w = Some r"
    by (simp add: while_steps_terminates)
next
  assume a: "(\<exists>r. while_steps X p w = Some r) \<and>
    n_equations (the_trainer w) < epoch_size (the_trainer w)"
  show "tasks p \<noteq> []"
  proof
    assume "tasks p = []"
    with a have "while_steps X p w = None" by (simp add: while_steps_no_tasks)
    with a show False by simp
  qed
next
  assume "epoch_size (the_trainer w) \<le> n_equations (the_trainer w)"
  then show "while_steps X p w = Some (Inr w)" by (rule while_steps_stop)
next
  fix w' assume "while_steps X p w = Some (Inr w')"
  from while_steps_exit [OF this]
  show "epoch_size (the_trainer w') \<le> n_equations (the_trainer w')" by simp
qed

text \<open>
  The example run with its task list emptied, with a bookkeeping call that does nothing,
  as it is, and with its task list emptied and an epoch size of zero.
\<close>

theorem while_loop_termination_witness:
  "tasks (example_config\<lparr>tasks := []\<rparr>) = [] \<and>
   n_equations (the_trainer example_start) < epoch_size (the_trainer example_start) \<and>
   0 < epoch_size (the_trainer example_start) \<and>
   inner_step example_collaborators (example_config\<lparr>tasks := []\<rparr>) example_start =
     Inr (example_start\<lparr>trace := trace example_start @ [Permutation []]\<rparr>) \<and>
   while_steps example_collaborators (example_config\<lparr>tasks := []\<rparr>) example_start = None \<and>
   one_epoch example_collaborators (example_config\<lparr>tasks := []\<rparr>) example_start = None \<and>
   counter_untouched example_idle \<and>
   while_steps example_idle example_config example_start \<noteq> Some (Inr example_loop_end) \<and>
   counter_advances example_collaborators \<and>
   tasks example_config \<noteq> [] \<and>
   while_steps example_collaborators example_config example_start = Some (Inr example_loop_end) \<and>
   epoch_size (the_trainer example_loop_end) \<le> n_equations (the_trainer example_loop_end) \<and>
   epoch_size (the_trainer example_size_zero) \<le> n_equations (the_trainer example_size_zero) \<and>
   while_steps example_collaborators (example_config\<lparr>tasks := []\<rparr>) example_size_zero =
     Some (Inr example_size_zero)"
proof -
  note t1 = while_loop_termination
    [of "example_config\<lparr>tasks := []\<rparr>" example_start example_collaborators 0]
  note t2 = while_loop_termination
    [of example_config example_start example_collaborators 0]
  note t3 = while_loop_termination
    [of example_config example_start example_idle 0]
  note t4 = while_loop_termination
    [of "example_config\<lparr>tasks := []\<rparr>" example_size_zero example_collaborators 0]
  have e: "tasks (example_config\<lparr>tasks := []\<rparr>) = []" by simp
  have lt: "n_equations (the_trainer example_start) < epoch_size (the_trainer example_start)"
    "0 < epoch_size (the_trainer example_start)"
    by (simp_all add: example_start_def example_trainer_def)
  have ne: "tasks example_config \<noteq> []" by (simp add: example_config_def)
  have z: "epoch_size (the_trainer example_size_zero) \<le> n_equations (the_trainer example_size_zero)"
    by (simp add: example_size_zero_def example_trainer_def)
  from t1 e lt
  have a: "inner_step example_collaborators (example_config\<lparr>tasks := []\<rparr>) example_start =
       Inr (example_start\<lparr>trace := trace example_start @ [Permutation []]\<rparr>) \<and>
     while_steps example_collaborators (example_config\<lparr>tasks := []\<rparr>) example_start = None \<and>
     one_epoch example_collaborators (example_config\<lparr>tasks := []\<rparr>) example_start = None"
    by blast
  from t2 example_counter_advances ne
  have b: "\<exists>r. while_steps example_collaborators example_config example_start = Some r"
    by blast
  from t3 example_idle_untouched lt
  have c: "while_steps example_idle example_config example_start \<noteq> Some (Inr example_loop_end)"
    by blast
  from t2 example_while_steps
  have d: "epoch_size (the_trainer example_loop_end) \<le> n_equations (the_trainer example_loop_end)"
    by blast
  from t4 z
  have f: "while_steps example_collaborators (example_config\<lparr>tasks := []\<rparr>) example_size_zero =
     Some (Inr example_size_zero)"
    by blast
  from a b c d f e lt ne z show ?thesis
    using example_counter_advances example_idle_untouched example_while_steps by simp
qed

text \<open>
  Claim C10 as stated fails: the loop can end although the bookkeeping call does not raise
  the counter, and although the task list is empty. With a trainer whose training step adds
  one to the counter and whose bookkeeping call returns the trainer as it is, the example
  loop ends after two inner steps; and with no task and an epoch size of zero the loop ends
  at once.
\<close>

theorem counting_step_counterexample:
  "trainer_iter example_step_counts = Inr \<and>
   tasks example_config \<noteq> [] \<and>
   n_equations (the_trainer example_start) < epoch_size (the_trainer example_start) \<and>
   while_steps example_step_counts example_config example_start = Some (Inr example_loop_end) \<and>
   tasks (example_config\<lparr>tasks := []\<rparr>) = [] \<and>
   while_steps example_collaborators (example_config\<lparr>tasks := []\<rparr>) example_size_zero =
     Some (Inr example_size_zero)"
proof -
  have a: "trainer_iter example_step_counts = Inr"
    by (simp add: example_step_counts_def)
  have b: "tasks example_config \<noteq> []" by (simp add: example_config_def)
  have c: "n_equations (the_trainer example_start) < epoch_size (the_trainer example_start)"
    by (simp add: example_start_def example_trainer_def)
  have d: "while_steps example_step_counts example_config example_start =
      Some (Inr example_loop_end)"
    by code_simp
  have e: "while_steps example_collaborators (example_config\<lparr>tasks := []\<rparr>) example_size_zero =
     Some (Inr example_size_zero)"
    by code_simp
  from a b c d e show ?thesis by simp
qed

end
